theory Spec2Isabelle
  imports Main "HOL-Library.AList" "HOL-Library.Sublist"
begin

section \<open>Errors and outcomes\<close>

text \<open>
  The Python exceptions that the program can meet.  \<open>Error_perm\<close> is
  \<open>ftplib.error_perm\<close>, the only exception the program ever catches besides
  \<open>ValueError\<close>.  A function with effects returns a pair: its outcome
  (\<open>Inl\<close> an uncaught exception, \<open>Inr\<close> the returned value) and the state it
  leaves behind, which an exception does not roll back.
\<close>

datatype error =
    Error_perm
  | ValueError
  | TypeError
  | AttributeError
  | FileExistsError
  | FileNotFoundError
  | NotADirectoryError
  | IsADirectoryError
  | ConnectionError

section \<open>The local filesystem\<close>

text \<open>
  A local tree is a regular file (content, modification time) or a directory
  (its own modification time, its entries in the order \<open>os.scandir\<close> reports
  them).  Paths are lists of names relative to the root of the tree.  Time stamps
  are whole seconds; the program only compares them with \<open>==\<close> and \<open>>\<close> and
  copies them.
\<close>

type_synonym path = "string list"

datatype node = File string int | Dir int "(string \<times> node) list"

fun mtime_of :: "node \<Rightarrow> int" where
  "mtime_of (File c m) = m"
| "mtime_of (Dir m es) = m"

fun isdir_node :: "node \<Rightarrow> bool" where
  "isdir_node (File c m) = False"
| "isdir_node (Dir m es) = True"

fun lookup :: "node \<Rightarrow> path \<Rightarrow> node option" where
  "lookup n [] = Some n"
| "lookup (File c m) (x # xs) = None"
| "lookup (Dir m es) (x # xs) =
     (case map_of es x of None \<Rightarrow> None | Some n \<Rightarrow> lookup n xs)"

text \<open>\<open>stat\<close> on a tree whose root may be missing (\<open>None\<close>).\<close>

definition stat :: "node option \<Rightarrow> path \<Rightarrow> node option" where
  "stat fs p = (case fs of None \<Rightarrow> None | Some n \<Rightarrow> lookup n p)"

definition isdir :: "node \<Rightarrow> path \<Rightarrow> bool" where
  "isdir t p = (case lookup t p of Some (Dir m es) \<Rightarrow> True | _ \<Rightarrow> False)"

text \<open>
  \<open>os.makedirs(p, exist_ok=True)\<close>: the missing directories are created with the
  clock's reading \<open>now\<close>; a regular file in the way raises, and nothing has been
  created by then, since every existing component comes before every missing one.
\<close>

fun mkchain :: "int \<Rightarrow> path \<Rightarrow> node" where
  "mkchain now [] = Dir now []"
| "mkchain now (x # xs) = Dir now [(x, mkchain now xs)]"

fun makedirs_in :: "int \<Rightarrow> node \<Rightarrow> path \<Rightarrow> error + node" where
  "makedirs_in now (File c m) [] = Inl FileExistsError"
| "makedirs_in now (File c m) (x # xs) = Inl NotADirectoryError"
| "makedirs_in now (Dir m es) [] = Inr (Dir m es)"
| "makedirs_in now (Dir m es) (x # xs) =
     (case map_of es x of
        None \<Rightarrow> Inr (Dir now (es @ [(x, mkchain now xs)]))
      | Some n \<Rightarrow>
          (case makedirs_in now n xs of
             Inl e \<Rightarrow> Inl e
           | Inr n' \<Rightarrow> Inr (Dir m (AList.update x n' es))))"

definition makedirs :: "int \<Rightarrow> node option \<Rightarrow> path \<Rightarrow> error + node" where
  "makedirs now fs p =
     (case fs of None \<Rightarrow> Inr (mkchain now p) | Some n \<Rightarrow> makedirs_in now n p)"

text \<open>
  Writing a regular file with content \<open>c\<close> and leaving it with time stamp \<open>m\<close>
  (\<open>open(p, 'wb')\<close>, the write, then \<open>os.utime\<close> or \<open>shutil.copystat\<close>).  A new
  entry stamps its directory with \<open>now\<close>; overwriting does not.
\<close>

fun write_file :: "int \<Rightarrow> node \<Rightarrow> path \<Rightarrow> string \<Rightarrow> int \<Rightarrow> error + node" where
  "write_file now (File c' m') [] c m = Inr (File c m)"
| "write_file now (Dir m' es) [] c m = Inl IsADirectoryError"
| "write_file now (File c' m') (x # xs) c m = Inl NotADirectoryError"
| "write_file now (Dir m' es) (x # xs) c m =
     (case map_of es x of
        None \<Rightarrow>
          (if xs = [] then Inr (Dir now (es @ [(x, File c m)])) else Inl FileNotFoundError)
      | Some n \<Rightarrow>
          (case write_file now n xs c m of
             Inl e \<Rightarrow> Inl e
           | Inr n' \<Rightarrow> Inr (Dir m' (AList.update x n' es))))"

text \<open>
  \<open>shutil.copy2(src, dst)\<close>: when \<open>dst\<close> is a directory the file goes into it
  under the source's base name; content and time stamp are the source's.
\<close>

definition copy2 :: "int \<Rightarrow> string \<times> string \<times> int \<Rightarrow> node \<Rightarrow> path \<Rightarrow> error + node" where
  "copy2 now src tgt dst =
     (case src of (file, c, m) \<Rightarrow>
        write_file now tgt (if isdir tgt dst then dst @ [file] else dst) c m)"

text \<open>
  \<open>os.walk(top)\<close>, top-down: for each directory its path relative to the top and
  its regular files (name, content, time stamp), then its subdirectories in turn.
  A top that is missing or is a regular file yields nothing: \<open>os.walk\<close>
  swallows the error of \<open>scandir\<close>.
\<close>

fun files_of :: "(string \<times> node) list \<Rightarrow> (string \<times> string \<times> int) list" where
  "files_of [] = []"
| "files_of ((n, File c m) # es) = (n, c, m) # files_of es"
| "files_of ((n, Dir m ds) # es) = files_of es"

fun os_walk_dir :: "path \<Rightarrow> node \<Rightarrow> (path \<times> (string \<times> string \<times> int) list) list" where
  "os_walk_dir rel (File c m) = []"
| "os_walk_dir rel (Dir dm es) =
     (rel, files_of es) # concat (map (\<lambda>(n, d). os_walk_dir (rel @ [n]) d) es)"

definition os_walk :: "node option \<Rightarrow> (path \<times> (string \<times> string \<times> int) list) list" where
  "os_walk src = (case src of None \<Rightarrow> [] | Some n \<Rightarrow> os_walk_dir [] n)"

section \<open>The Merge Engine: \<open>merge_directories\<close>\<close>

text \<open>
  The inner loop over the files of one source directory, the outer loop over the
  directories of the walk.  The source tree and the target tree are separate places,
  so that the walk does not see what the loop writes.  The first pass over the
  source, which only sizes the progress bar, and the bar itself are left out.
\<close>

fun merge_files :: "int \<Rightarrow> path \<Rightarrow> (string \<times> string \<times> int) list \<Rightarrow> node \<Rightarrow> (error + unit) \<times> node" where
  "merge_files now target_root [] tgt = (Inr (), tgt)"
| "merge_files now target_root ((file, c, m) # rest) tgt =
     (let target_path = target_root @ [file] in
      if (case lookup tgt target_path of None \<Rightarrow> True | Some n \<Rightarrow> m > mtime_of n)
      then (case copy2 now (file, c, m) tgt target_path of
              Inl e \<Rightarrow> (Inl e, tgt)
            | Inr tgt' \<Rightarrow> merge_files now target_root rest tgt')
      else merge_files now target_root rest tgt)"

fun merge_walk :: "int \<Rightarrow> (path \<times> (string \<times> string \<times> int) list) list \<Rightarrow> node option
    \<Rightarrow> (error + unit) \<times> node option" where
  "merge_walk now [] target = (Inr (), target)"
| "merge_walk now ((relative_root, files) # rest) target =
     (case makedirs now target relative_root of
        Inl e \<Rightarrow> (Inl e, target)
      | Inr t1 \<Rightarrow>
          (case merge_files now relative_root files t1 of
             (Inl e, t2) \<Rightarrow> (Inl e, Some t2)
           | (Inr u, t2) \<Rightarrow> merge_walk now rest (Some t2)))"

definition merge_directories :: "int \<Rightarrow> node option \<Rightarrow> node option \<Rightarrow> (error + unit) \<times> node option" where
  "merge_directories now source target = merge_walk now (os_walk source) target"

text \<open>
  A sequence of merges into the same canonical tree, each with its own clock reading, as
  \<open>main\<close> runs them for two endpoints.  It stops at the first exception.
\<close>

fun merge_all :: "(int \<times> node option) list \<Rightarrow> node option \<Rightarrow> (error + unit) \<times> node option" where
  "merge_all [] target = (Inr (), target)"
| "merge_all ((now, source) # rest) target =
     (case merge_directories now source target of
        (Inl e, t') \<Rightarrow> (Inl e, t')
      | (Inr u, t') \<Rightarrow> merge_all rest t')"

section \<open>Library model: strings and time\<close>

text \<open>
  \<open>str.split()\<close> without arguments splits at runs of white space and yields no
  empty field.  Characters are taken as code points below 256.
\<close>

definition isspace :: "char \<Rightarrow> bool" where
  "isspace c = (c \<in> {CHR 0x09, CHR 0x0A, CHR 0x0B, CHR 0x0C, CHR 0x0D, CHR 0x1C, CHR 0x1D,
                       CHR 0x1E, CHR 0x1F, CHR 0x20, CHR 0x85, CHR 0xA0})"

fun split_from :: "string \<Rightarrow> string \<Rightarrow> string list" where
  "split_from [] w = (if w = [] then [] else [rev w])"
| "split_from (c # cs) w =
     (if isspace c then (if w = [] then split_from cs [] else rev w # split_from cs [])
      else split_from cs (c # w))"

definition str_split :: "string \<Rightarrow> string list" where
  "str_split s = split_from s []"

fun str_join :: "string \<Rightarrow> string list \<Rightarrow> string" where
  "str_join sep [] = []"
| "str_join sep [x] = x"
| "str_join sep (x # y # ys) = x @ sep @ str_join sep (y # ys)"

text \<open>
  \<open>time.strptime(s, "%b %d %H:%M")\<close> in the C locale.  The whole string must match
  month name, white space, day, white space, hour, colon, minute; the month name is
  matched without regard to case; each number is one or two digits in its range.  No
  field of the format carries a year, so the year is the library's default, 1900
  (with 29 February accepted).  Any mismatch raises \<open>ValueError\<close>.  Only the
  fields the program's arithmetic reads are kept in \<open>struct_time\<close>.
\<close>

record struct_time =
  tm_year :: int
  tm_mon :: int
  tm_mday :: int
  tm_hour :: int
  tm_min :: int

definition lower :: "char \<Rightarrow> char" where
  "lower c = (case map_of (zip ''ABCDEFGHIJKLMNOPQRSTUVWXYZ'' ''abcdefghijklmnopqrstuvwxyz'') c of
                None \<Rightarrow> c | Some l \<Rightarrow> l)"

definition month_of :: "string \<Rightarrow> int option" where
  "month_of b = map_of (zip [''jan'', ''feb'', ''mar'', ''apr'', ''may'', ''jun'',
                             ''jul'', ''aug'', ''sep'', ''oct'', ''nov'', ''dec'']
                            [1, 2, 3, 4, 5, 6, 7, 8, 9, 10, 11, 12]) (map lower b)"

definition digit_of :: "char \<Rightarrow> int option" where
  "digit_of c = map_of (zip ''0123456789'' [0, 1, 2, 3, 4, 5, 6, 7, 8, 9]) c"

definition number_of :: "int \<Rightarrow> int \<Rightarrow> string \<Rightarrow> int option" where
  "number_of lo hi s =
     (case map digit_of s of
        [Some a] \<Rightarrow> if lo \<le> a \<and> a \<le> hi then Some a else None
      | [Some a, Some b] \<Rightarrow> if lo \<le> 10 * a + b \<and> 10 * a + b \<le> hi then Some (10 * a + b) else None
      | _ \<Rightarrow> None)"

definition days_in_month :: "int \<Rightarrow> int" where
  "days_in_month mo = (if mo = 2 then 29 else if mo \<in> {4, 6, 9, 11} then 30 else 31)"

definition strptime :: "string \<Rightarrow> error + struct_time" where
  "strptime s =
     (if s = [] \<or> isspace (hd s) \<or> isspace (last s) then Inl ValueError
      else case str_split s of
        [b, d, hm] \<Rightarrow>
          (case (month_of b, number_of 1 31 d,
                 number_of 0 23 (takeWhile (\<lambda>c. c \<noteq> CHR '':'') hm),
                 dropWhile (\<lambda>c. c \<noteq> CHR '':'') hm) of
             (Some mo, Some dy, Some h, colon # mi) \<Rightarrow>
               (case number_of 0 59 mi of
                  Some mn \<Rightarrow>
                    if dy \<le> days_in_month mo
                    then Inr \<lparr>tm_year = 1900, tm_mon = mo, tm_mday = dy, tm_hour = h, tm_min = mn\<rparr>
                    else Inl ValueError
                | None \<Rightarrow> Inl ValueError)
           | _ \<Rightarrow> Inl ValueError)
      | _ \<Rightarrow> Inl ValueError)"

text \<open>
  \<open>time.mktime\<close> for a process whose time zone is UTC: the number of seconds from
  1970-01-01 00:00 to the given civil time, negative before 1970.
\<close>

definition days_from_civil :: "int \<Rightarrow> int \<Rightarrow> int \<Rightarrow> int" where
  "days_from_civil y m d =
     (let y' = (if m \<le> 2 then y - 1 else y);
          era = y' div 400;
          yoe = y' - era * 400;
          doy = (153 * (if m > 2 then m - 3 else m + 9) + 2) div 5 + d - 1;
          doe = yoe * 365 + yoe div 4 - yoe div 100 + doy
      in era * 146097 + doe - 719468)"

definition mktime :: "struct_time \<Rightarrow> int" where
  "mktime t = days_from_civil (tm_year t) (tm_mon t) (tm_mday t) * 86400
                + tm_hour t * 3600 + tm_min t * 60"

section \<open>The protocol session\<close>

text \<open>
  The remote endpoint is the collaborator behind \<open>ftplib.FTP\<close>: a tree, the
  session's current directory, the server's clock, and the server's way of writing a
  directory as \<open>LIST\<close> lines (free text, which the server may also refuse).  Every
  command either succeeds or is refused with \<open>error_perm\<close>; nothing else is modelled
  of the transport.
\<close>

record ftp =
  root :: node
  cur_dir :: path
  clock :: int
  lister :: "(string \<times> node) list \<Rightarrow> error + string list"

text \<open>
  A path argument is cut at \<open>/\<close>; it starts from the root when it begins with
  \<open>/\<close>, from the current directory otherwise; \<open>.\<close> and empty components are
  skipped and \<open>..\<close> goes to the parent (the root is its own parent).
\<close>

fun components_from :: "string \<Rightarrow> string \<Rightarrow> string list" where
  "components_from [] w = [rev w]"
| "components_from (c # cs) w =
     (if c = CHR ''/'' then rev w # components_from cs [] else components_from cs (c # w))"

fun walk_components :: "path \<Rightarrow> string list \<Rightarrow> path" where
  "walk_components cur [] = cur"
| "walk_components cur (c # cs) =
     (if c = [] \<or> c = ''.'' then walk_components cur cs
      else if c = ''..'' then walk_components (butlast cur) cs
      else walk_components (cur @ [c]) cs)"

definition resolve :: "path \<Rightarrow> string \<Rightarrow> path" where
  "resolve cur s =
     walk_components (if s \<noteq> [] \<and> hd s = CHR ''/'' then [] else cur) (components_from s [])"

definition pwd :: "ftp \<Rightarrow> string" where
  "pwd f = CHR ''/'' # str_join ''/'' (cur_dir f)"

definition cwd :: "ftp \<Rightarrow> string \<Rightarrow> error + ftp" where
  "cwd f dirname =
     (let p = resolve (cur_dir f) dirname in
      if isdir (root f) p then Inr (f\<lparr>cur_dir := p\<rparr>) else Inl Error_perm)"

definition retrlines_LIST :: "ftp \<Rightarrow> error + string list" where
  "retrlines_LIST f =
     (case lookup (root f) (cur_dir f) of
        Some (Dir m es) \<Rightarrow> lister f es
      | _ \<Rightarrow> Inl Error_perm)"

definition retrbinary :: "ftp \<Rightarrow> string \<Rightarrow> error + string" where
  "retrbinary f item =
     (case lookup (root f) (resolve (cur_dir f) item) of
        Some (File c m) \<Rightarrow> Inr c
      | _ \<Rightarrow> Inl Error_perm)"

text \<open>
  \<open>STOR\<close> leaves the stored file with the server's clock as its time stamp;
  \<open>MFMT\<close> sets the time stamp of an existing file.  The program sends the time as
  text (\<open>strftime\<close> of \<open>gmtime\<close>); the model passes the number of seconds.
\<close>

definition storbinary :: "ftp \<Rightarrow> string \<Rightarrow> string \<Rightarrow> error + ftp" where
  "storbinary f item content =
     (case write_file (clock f) (root f) (resolve (cur_dir f) item) content (clock f) of
        Inl e \<Rightarrow> Inl Error_perm
      | Inr r \<Rightarrow> Inr (f\<lparr>root := r\<rparr>))"

definition mfmt :: "ftp \<Rightarrow> int \<Rightarrow> string \<Rightarrow> error + ftp" where
  "mfmt f t item =
     (let p = resolve (cur_dir f) item in
      case lookup (root f) p of
        Some (File c m) \<Rightarrow>
          (case write_file (clock f) (root f) p c t of
             Inl e \<Rightarrow> Inl Error_perm
           | Inr r \<Rightarrow> Inr (f\<lparr>root := r\<rparr>))
      | _ \<Rightarrow> Inl Error_perm)"

definition mkd :: "ftp \<Rightarrow> string \<Rightarrow> error + ftp" where
  "mkd f dirname =
     (let p = resolve (cur_dir f) dirname in
      if p \<noteq> [] \<and> isdir (root f) (butlast p) \<and> lookup (root f) p = None
      then (case makedirs_in (clock f) (root f) p of
              Inl e \<Rightarrow> Inl Error_perm
            | Inr r \<Rightarrow> Inr (f\<lparr>root := r\<rparr>))
      else Inl Error_perm)"

section \<open>The Listing Resolver\<close>

text \<open>
  \<open>parse_line\<close> is the callback of \<open>list_directory_with_details\<close>; \<open>items\<close> is the
  dictionary it fills, kept as an association list in insertion order.  A refused
  \<open>LIST\<close> is reported and the dictionary comes back empty.
\<close>

definition parse_line :: "(string \<times> int) list \<Rightarrow> string \<Rightarrow> (string \<times> int) list" where
  "parse_line items line =
     (let parts = str_split line in
      if length parts \<ge> 9 then
        (let filename = last parts in
         case strptime (str_join '' '' (take 3 (drop 5 parts))) of
           Inr t \<Rightarrow> AList.update filename (mktime t) items
         | Inl e \<Rightarrow> AList.update filename 0 items)
      else items)"

definition list_directory_with_details :: "ftp \<Rightarrow> (string \<times> int) list" where
  "list_directory_with_details f =
     (case retrlines_LIST f of
        Inl e \<Rightarrow> []
      | Inr lines \<Rightarrow> foldl parse_line [] lines)"

definition is_directory :: "ftp \<Rightarrow> string \<Rightarrow> bool \<times> ftp" where
  "is_directory f item =
     (let current_dir = pwd f in
      case cwd f item of
        Inl e \<Rightarrow> (False, f)
      | Inr f1 \<Rightarrow>
          (case cwd f1 current_dir of
             Inl e \<Rightarrow> (False, f1)
           | Inr f2 \<Rightarrow> (True, f2)))"

text \<open>
  \<open>count_files\<close> recurses as deep as the server lets it change directory, which a
  listing that names \<open>.\<close> makes unbounded; the fuel bounds the depth and \<open>None\<close> is
  a recursion that did not end within it.
\<close>

fun count_files :: "nat \<Rightarrow> ftp \<Rightarrow> string \<Rightarrow> ((error + int) \<times> ftp) option"
  and count_items :: "nat \<Rightarrow> ftp \<Rightarrow> string list \<Rightarrow> int \<Rightarrow> ((error + int) \<times> ftp) option" where
  "count_files 0 f remote_dir = None"
| "count_files (Suc fuel) f remote_dir =
     (case cwd f remote_dir of
        Inl e \<Rightarrow> Some (Inr 0, f)
      | Inr f1 \<Rightarrow>
          (case count_items fuel f1 (map fst (list_directory_with_details f1)) 0 of
             None \<Rightarrow> None
           | Some (Inl e, f2) \<Rightarrow> Some (Inl e, f2)
           | Some (Inr total_files, f2) \<Rightarrow>
               (case cwd f2 ''..'' of
                  Inl e \<Rightarrow> Some (Inl e, f2)
                | Inr f3 \<Rightarrow> Some (Inr total_files, f3))))"
| "count_items fuel f [] total_files = Some (Inr total_files, f)"
| "count_items fuel f (item # rest) total_files =
     (case is_directory f item of
        (True, f1) \<Rightarrow>
          (case count_files fuel f1 item of
             None \<Rightarrow> None
           | Some (Inl e, f2) \<Rightarrow> Some (Inl e, f2)
           | Some (Inr n, f2) \<Rightarrow> count_items fuel f2 rest (total_files + n))
      | (False, f1) \<Rightarrow> count_items fuel f1 rest (total_files + 1))"

section \<open>Progress bars\<close>

text \<open>Of \<open>tqdm\<close> only the counter is kept: its total, its count, and whether it is closed.\<close>

record tqdm =
  tq_total :: int
  tq_n :: int
  tq_closed :: bool

definition tqdm_new :: "int \<Rightarrow> tqdm" where
  "tqdm_new total_files = \<lparr>tq_total = total_files, tq_n = 0, tq_closed = False\<rparr>"

definition pbar_update :: "tqdm option \<Rightarrow> error + tqdm option" where
  "pbar_update pbar =
     (case pbar of None \<Rightarrow> Inl AttributeError | Some b \<Rightarrow> Inr (Some (b\<lparr>tq_n := tq_n b + 1\<rparr>)))"

definition pbar_close :: "tqdm option \<Rightarrow> tqdm option" where
  "pbar_close pbar = map_option (\<lambda>b. b\<lparr>tq_closed := True\<rparr>) pbar"

section \<open>Pull: \<open>download_directory\<close>\<close>

text \<open>
  \<open>is_directory\<close> is defined with two parameters, \<open>(ftp, item)\<close>.
  \<open>download_directory\<close> calls it with one argument, twice: \<open>is_directory(item)\<close>
  over the values of the listing when it sizes the progress bar, and
  \<open>is_directory(details)\<close> in the loop.  Python raises \<open>TypeError\<close> for the missing
  argument before the body runs.  The loop then reads \<open>details["mtime"]\<close>, where
  \<open>details\<close> is the number the Listing Resolver stored: subscripting a number raises
  \<open>TypeError\<close> as well.
\<close>

definition is_directory_one_argument :: "'a \<Rightarrow> error + bool" where
  "is_directory_one_argument x = Inl TypeError"

definition subscript_mtime :: "int \<Rightarrow> error + int" where
  "subscript_mtime details = Inl TypeError"

fun sum_not_directory :: "int list \<Rightarrow> error + int" where
  "sum_not_directory [] = Inr 0"
| "sum_not_directory (item # rest) =
     (case is_directory_one_argument item of
        Inl e \<Rightarrow> Inl e
      | Inr d \<Rightarrow>
          (case sum_not_directory rest of
             Inl e \<Rightarrow> Inl e
           | Inr k \<Rightarrow> Inr ((if \<not> d then 1 else 0) + k)))"

definition open_wb :: "int \<Rightarrow> node option \<Rightarrow> path \<Rightarrow> string \<Rightarrow> int \<Rightarrow> error + node" where
  "open_wb now fs p c m =
     (case fs of None \<Rightarrow> Inl FileNotFoundError | Some t \<Rightarrow> write_file now t p c m)"

text \<open>
  The state of a pull is the session, the staging tree and the progress bar; the
  canonical tree is only read.  \<open>local_dir\<close> and \<open>merged_dir\<close> are paths inside the
  staging tree and the canonical tree.  Messages printed under \<open>verbose\<close> are left out.
\<close>

type_synonym pull_state = "ftp \<times> node option \<times> tqdm option"

function download_directory ::
    "int \<Rightarrow> node option \<Rightarrow> pull_state \<Rightarrow> string \<Rightarrow> path \<Rightarrow> path \<Rightarrow> int option
       \<Rightarrow> (error + unit) \<times> pull_state"
  and download_items ::
    "int \<Rightarrow> node option \<Rightarrow> pull_state \<Rightarrow> path \<Rightarrow> path \<Rightarrow> int option \<Rightarrow> (string \<times> int) list
       \<Rightarrow> (error + unit) \<times> pull_state" where
  "download_directory now merged (f, staging, pbar) remote_dir local_dir merged_dir total_files =
     (case makedirs now staging local_dir of
        Inl e \<Rightarrow> (Inl e, f, staging, pbar)
      | Inr st1 \<Rightarrow>
          (case cwd f remote_dir of
             Inl e \<Rightarrow> (Inr (), f, Some st1, pbar)
           | Inr f1 \<Rightarrow>
               (let remote_items = list_directory_with_details f1 in
                case (if pbar = None \<and> total_files = None
                      then (case sum_not_directory (map snd remote_items) of
                              Inl e \<Rightarrow> Inl e
                            | Inr k \<Rightarrow> Inr (Some k, Some (tqdm_new k)))
                      else Inr (total_files, pbar)) of
                  Inl e \<Rightarrow> (Inl e, f1, Some st1, pbar)
                | Inr (total_files1, pbar1) \<Rightarrow>
                    (case download_items now merged (f1, Some st1, pbar1) local_dir merged_dir
                            total_files1 remote_items of
                       (Inl e, s) \<Rightarrow> (Inl e, s)
                     | (Inr u, f2, st2, pbar2) \<Rightarrow>
                         (case cwd f2 ''..'' of
                            Inl e \<Rightarrow> (Inl e, f2, st2, pbar2)
                          | Inr f3 \<Rightarrow>
                              (Inr (), f3, st2,
                               if pbar2 \<noteq> None \<and> remote_dir = pwd f3
                               then pbar_close pbar2 else pbar2))))))"
| "download_items now merged (f, staging, pbar) local_dir merged_dir total_files [] =
     (Inr (), f, staging, pbar)"
| "download_items now merged (f, staging, pbar) local_dir merged_dir total_files
       ((item, details) # rest) =
     (let local_path = local_dir @ [item]; merged_path = merged_dir @ [item] in
      case is_directory_one_argument details of
        Inl e \<Rightarrow> (Inl e, f, staging, pbar)
      | Inr True \<Rightarrow>
          (case download_directory now merged (f, staging, pbar) item local_path merged_path
                  total_files of
             (Inl e, s) \<Rightarrow> (Inl e, s)
           | (Inr u, s) \<Rightarrow> download_items now merged s local_dir merged_dir total_files rest)
      | Inr False \<Rightarrow>
          (case subscript_mtime details of
             Inl e \<Rightarrow> (Inl e, f, staging, pbar)
           | Inr ftp_mtime \<Rightarrow>
               if (case stat merged merged_path of
                     None \<Rightarrow> False | Some n \<Rightarrow> mtime_of n = ftp_mtime)
               then download_items now merged (f, staging, pbar) local_dir merged_dir
                      total_files rest
               else
                 (case open_wb now staging local_path [] now of
                    Inl e \<Rightarrow> (Inl e, f, staging, pbar)
                  | Inr st1 \<Rightarrow>
                      (case (case retrbinary f item of
                               Inl e \<Rightarrow> Inr st1
                             | Inr content \<Rightarrow> write_file now st1 local_path content ftp_mtime) of
                         Inl e \<Rightarrow> (Inl e, f, Some st1, pbar)
                       | Inr st2 \<Rightarrow>
                           (case pbar_update pbar of
                              Inl e \<Rightarrow> (Inl e, f, Some st2, pbar)
                            | Inr pbar1 \<Rightarrow>
                                download_items now merged (f, Some st2, pbar1) local_dir
                                  merged_dir total_files rest)))))"
  by pat_completeness auto
termination
  by (relation "measure (\<lambda>x. case x of
          Inl (now, merged, (f, staging, pbar), remote_dir, local_dir, merged_dir, total_files) \<Rightarrow>
            (case cwd f remote_dir of
               Inl e \<Rightarrow> 0
             | Inr f1 \<Rightarrow> Suc (length (list_directory_with_details f1)))
        | Inr (now, merged, s, local_dir, merged_dir, total_files, items) \<Rightarrow> length items)")
     (auto simp: is_directory_one_argument_def subscript_mtime_def)

section \<open>Push: \<open>upload_directory\<close>\<close>

text \<open>
  \<open>remote_files.get(item, {})\<close> is the number stored for \<open>item\<close>, or an empty
  dictionary; \<open>.get("mtime", 0)\<close> on the empty dictionary is 0, and on a number it
  raises \<open>AttributeError\<close>.
\<close>

definition path_join :: "string \<Rightarrow> string \<Rightarrow> string" where
  "path_join a b =
     (if b \<noteq> [] \<and> hd b = CHR ''/'' then b
      else if a = [] \<or> last a = CHR ''/'' then a @ b
      else a @ ''/'' @ b)"

definition listdir :: "node option \<Rightarrow> error + (string \<times> node) list" where
  "listdir local_dir =
     (case local_dir of
        None \<Rightarrow> Inl FileNotFoundError
      | Some (File c m) \<Rightarrow> Inl NotADirectoryError
      | Some (Dir m es) \<Rightarrow> Inr es)"

definition get_mtime_of_value :: "int option \<Rightarrow> error + int" where
  "get_mtime_of_value v = (case v of None \<Rightarrow> Inr 0 | Some x \<Rightarrow> Inl AttributeError)"

fun file_content :: "node \<Rightarrow> string" where
  "file_content (File c m) = c"
| "file_content (Dir m es) = []"

text \<open>
  The opening \<open>try\<close> block: change to \<open>/\<close> and then to \<open>remote_dir\<close>; if either is
  refused, create \<open>remote_dir\<close> and change into it; if that is refused too, give up
  (\<open>Inl\<close>, with the session as it then is).
\<close>

definition enter_remote :: "ftp \<Rightarrow> string \<Rightarrow> ftp + ftp" where
  "enter_remote f remote_dir =
     (case (case cwd f ''/'' of
              Inl e \<Rightarrow> Inl f
            | Inr f0 \<Rightarrow> (case cwd f0 remote_dir of Inl e \<Rightarrow> Inl f0 | Inr f1 \<Rightarrow> Inr f1)) of
        Inr f1 \<Rightarrow> Inr f1
      | Inl fa \<Rightarrow>
          (case mkd fa remote_dir of
             Inl e \<Rightarrow> Inl fa
           | Inr fb \<Rightarrow> (case cwd fb remote_dir of Inl e \<Rightarrow> Inl fb | Inr f1 \<Rightarrow> Inr f1)))"

text \<open>
  The local tree is only read, so the walk is handed the node at \<open>local_dir\<close> and
  its entries stand for \<open>os.listdir\<close>, \<open>os.path.isdir\<close>, \<open>os.path.getmtime\<close> and
  the file's bytes.
\<close>

type_synonym push_state = "ftp \<times> tqdm option"

function upload_directory :: "push_state \<Rightarrow> node option \<Rightarrow> string \<Rightarrow> (error + unit) \<times> push_state"
  and upload_items :: "push_state \<Rightarrow> string \<Rightarrow> (string \<times> int) list \<Rightarrow> (string \<times> node) list
       \<Rightarrow> (error + unit) \<times> push_state" where
  "upload_directory (f, pbar) local_dir remote_dir =
     (case enter_remote f remote_dir of
        Inl fa \<Rightarrow> (Inr (), fa, pbar)
      | Inr f1 \<Rightarrow>
          (case listdir local_dir of
             Inl e \<Rightarrow> (Inl e, f1, pbar)
           | Inr local_items \<Rightarrow>
               (let pbar1 = (if pbar = None then Some (tqdm_new (int (length local_items))) else pbar);
                    remote_files = list_directory_with_details f1 in
                case upload_items (f1, pbar1) remote_dir remote_files local_items of
                  (Inl e, s) \<Rightarrow> (Inl e, s)
                | (Inr u, f2, pbar2) \<Rightarrow>
                    (Inr (), f2,
                     if pbar2 \<noteq> None \<and> remote_dir = pwd f2 then pbar_close pbar2 else pbar2))))"
| "upload_items (f, pbar) remote_dir remote_files [] = (Inr (), f, pbar)"
| "upload_items (f, pbar) remote_dir remote_files ((item, local_node) # rest) =
     (if isdir_node local_node then
        (case upload_directory (f, pbar) (Some local_node) (path_join remote_dir item) of
           (Inl e, s) \<Rightarrow> (Inl e, s)
         | (Inr u, f1, pbar1) \<Rightarrow>
             (case pbar_update pbar1 of
                Inl e \<Rightarrow> (Inl e, f1, pbar1)
              | Inr pbar2 \<Rightarrow> upload_items (f1, pbar2) remote_dir remote_files rest))
      else
        (let local_mtime = mtime_of local_node in
         case get_mtime_of_value (map_of remote_files item) of
           Inl e \<Rightarrow> (Inl e, f, pbar)
         | Inr remote_mtime \<Rightarrow>
             if map_of remote_files item \<noteq> None \<and> local_mtime = remote_mtime
             then upload_items (f, pbar) remote_dir remote_files rest
             else
               (let f1 = (case storbinary f item (file_content local_node) of
                            Inl e \<Rightarrow> f
                          | Inr fa \<Rightarrow> (case mfmt fa local_mtime item of Inl e \<Rightarrow> fa | Inr fb \<Rightarrow> fb)) in
                case pbar_update pbar of
                  Inl e \<Rightarrow> (Inl e, f1, pbar)
                | Inr pbar1 \<Rightarrow> upload_items (f1, pbar1) remote_dir remote_files rest)))"
  by pat_completeness auto
termination
  by (relation "measure (\<lambda>x. case x of
          Inl (s, local_dir, remote_dir) \<Rightarrow> (case local_dir of None \<Rightarrow> 0 | Some n \<Rightarrow> size n)
        | Inr (s, remote_dir, remote_files, items) \<Rightarrow> size_list (size_prod (\<lambda>x. 0) size) items)")
     (auto simp: listdir_def split: option.splits node.splits)

section \<open>The run: \<open>main\<close>\<close>


definition ftp_connect :: "ftp option \<Rightarrow> error + ftp" where
  "ftp_connect server =
     (case server of None \<Rightarrow> Inl ConnectionError | Some f \<Rightarrow> Inr (f\<lparr>cur_dir := []\<rparr>))"

definition remote_dir :: string where
  "remote_dir = ''ux0:/user/00/savedata''"




section \<open>What a tree holds at a path\<close>

text \<open>
  The statements below look at trees path by path: the regular file at a path
  (content and time stamp), or whether a directory is there.
\<close>

fun fileinfo :: "node option \<Rightarrow> (string \<times> int) option" where
  "fileinfo (Some (File c m)) = Some (c, m)"
| "fileinfo (Some (Dir m es)) = None"
| "fileinfo None = None"

fun is_dir_opt :: "node option \<Rightarrow> bool" where
  "is_dir_opt (Some (Dir m es)) = True"
| "is_dir_opt (Some (File c m)) = False"
| "is_dir_opt None = False"

definition file_at :: "node option \<Rightarrow> path \<Rightarrow> (string \<times> int) option" where
  "file_at fs p = fileinfo (stat fs p)"

definition dir_at :: "node option \<Rightarrow> path \<Rightarrow> bool" where
  "dir_at fs p = is_dir_opt (stat fs p)"

text \<open>The decision of the Merge Engine for one path, as a function of both copies.\<close>

definition merge_rule :: "string \<times> int \<Rightarrow> (string \<times> int) option \<Rightarrow> string \<times> int" where
  "merge_rule src tgt =
     (case tgt of None \<Rightarrow> src | Some old \<Rightarrow> if snd src > snd old then src else old)"

text \<open>The files a walk visits, with their paths from the top.\<close>

definition dfiles :: "path \<Rightarrow> (string \<times> string \<times> int) list \<Rightarrow> (path \<times> string \<times> int) list" where
  "dfiles rel fs = map (\<lambda>(n, f). (rel @ [n], f)) fs"

definition wfiles :: "(path \<times> (string \<times> string \<times> int) list) list \<Rightarrow> (path \<times> string \<times> int) list" where
  "wfiles W = concat (map (\<lambda>(rel, fs). dfiles rel fs) W)"

text \<open>
  A directory never lists a name twice.  Two trees are compatible when no path is a
  regular file in one and a directory in the other; \<open>compat_nodes\<close> decides it for
  two given trees.
\<close>

fun distinct_names :: "node \<Rightarrow> bool" where
  "distinct_names (File c m) = True"
| "distinct_names (Dir m es) = (distinct (map fst es) \<and> (\<forall>(n, d) \<in> set es. distinct_names d))"

definition wf_tree :: "node option \<Rightarrow> bool" where
  "wf_tree s = (case s of None \<Rightarrow> True | Some n \<Rightarrow> distinct_names n)"

definition compatible :: "node option \<Rightarrow> node option \<Rightarrow> bool" where
  "compatible s t = (\<forall>p. (file_at s p \<noteq> None \<longrightarrow> \<not> dir_at t p) \<and> (dir_at s p \<longrightarrow> file_at t p = None))"

fun compat_nodes :: "node \<Rightarrow> node \<Rightarrow> bool" where
  "compat_nodes (File c m) (File c' m') = True"
| "compat_nodes (File c m) (Dir m' es') = False"
| "compat_nodes (Dir m es) (File c' m') = False"
| "compat_nodes (Dir m es) (Dir m' es') =
     (\<forall>(n, d) \<in> set es. case map_of es' n of None \<Rightarrow> True | Some d' \<Rightarrow> compat_nodes d d')"

text \<open>
  A plain name is one that a path argument reads as a single step down.  The current
  directory of a session is made of plain names, since that is what \<open>resolve\<close>
  builds.
\<close>

definition plain :: "string \<Rightarrow> bool" where
  "plain c = (c \<noteq> [] \<and> c \<noteq> ''.'' \<and> c \<noteq> ''..'' \<and> CHR ''/'' \<notin> set c)"



section \<open>Example data\<close>

text \<open>
  An endpoint whose listing has the shape of \<open>ls -l\<close>, holding \<open>savedata\<close> under
  \<open>ux0:/user/00\<close>, and small local trees.
\<close>

fun ls_line :: "string \<times> node \<Rightarrow> string" where
  "ls_line (name, File c m) = ''-rw-r--r-- 1 user group 0 Jan 5 12:30 '' @ name"
| "ls_line (name, Dir m es) = ''drwxr-xr-x 2 user group 0 Jan 5 12:30 '' @ name"

definition ls :: "(string \<times> node) list \<Rightarrow> error + string list" where
  "ls es = Inr (map ls_line es)"

definition vita :: "(string \<times> node) list \<Rightarrow> ftp" where
  "vita savedata =
     \<lparr>root = Dir 0 [(''ux0:'', Dir 0 [(''user'', Dir 0 [(''00'', Dir 0 [(''savedata'', Dir 0 savedata)])])])],
      cur_dir = [], clock = 777, lister = ls\<rparr>"

definition savedata :: path where
  "savedata = [''ux0:'', ''user'', ''00'', ''savedata'']"


definition ex_source :: node where
  "ex_source = Dir 0 [(''x.txt'', File ''new'' 2500), (''y.txt'', File ''stale'' 10),
                      (''d'', Dir 0 [(''z.txt'', File ''fresh'' 7)])]"

definition ex_canonical :: node where
  "ex_canonical = Dir 0 [(''x.txt'', File ''v1'' 2000), (''y.txt'', File ''kept'' 20)]"

definition endpoint_a :: node where
  "endpoint_a = Dir 0 [(''x.txt'', File ''from A'' 1500)]"

definition endpoint_b :: node where
  "endpoint_b = Dir 0 [(''x.txt'', File ''from B'' 2500)]"

definition canonical_2000 :: node where
  "canonical_2000 = Dir 0 [(''x.txt'', File ''merged'' 2000)]"

definition canonical_3000 :: node where
  "canonical_3000 = Dir 0 [(''x.txt'', File ''merged'' 3000)]"

definition line_ok :: string where
  "line_ok = ''-rw-r--r--   1 owner group     10 Jan  5 12:30 a.txt''"

definition line_short :: string where
  "line_short = ''total 12''"

definition line_year :: string where
  "line_year = ''-rw-r--r--   1 owner group     10 Jan  5  2023 old.txt''"

section \<open>Evaluation rules\<close>

lemmas eval_merge = merge_directories_def os_walk_def makedirs_def copy2_def isdir_def
  file_at_def dir_at_def stat_def

lemmas eval_listing = parse_line_def str_split_def isspace_def strptime_def month_of_def lower_def
  number_of_def digit_of_def days_in_month_def mktime_def days_from_civil_def Let_def

lemmas eval_session = vita_def ls_def remote_dir_def cwd_def resolve_def pwd_def isdir_def
  retrlines_LIST_def list_directory_with_details_def retrbinary_def storbinary_def mfmt_def
  mkd_def is_directory_def enter_remote_def listdir_def path_join_def
  tqdm_new_def pbar_update_def pbar_close_def get_mtime_of_value_def open_wb_def
  is_directory_one_argument_def subscript_mtime_def makedirs_def ftp_connect_def

lemmas eval_pull = eval_session eval_listing savedata_def

section \<open>Paths in trees\<close>

lemma isdir_conv: "isdir t p = is_dir_opt (lookup t p)"
  by (cases "lookup t p" rule: is_dir_opt.cases) (auto simp: isdir_def)

lemma lookup_mkchain:
  "lookup (mkchain now p) q = (if prefix q p then Some (mkchain now (drop (length q) p)) else None)"
proof (induction p arbitrary: q)
  case Nil
  then show ?case by (cases q) auto
next
  case (Cons x xs)
  then show ?case by (cases q) auto
qed

lemma mkchain_is_dir: "is_dir_opt (Some (mkchain now p))" "fileinfo (Some (mkchain now p)) = None"
  by (cases p; simp)+

lemma fileinfo_mkchain: "fileinfo (lookup (mkchain now p) q) = None"
  and  isdir_mkchain: "is_dir_opt (lookup (mkchain now p) q) = prefix q p"
  by (simp_all add: lookup_mkchain mkchain_is_dir)

lemma map_of_snoc: "map_of es x = None \<Longrightarrow> map_of (es @ [(x, v)]) y = (if y = x then Some v else map_of es y)"
  by (auto simp: map_add_def split: option.splits)

lemma lookup_update:
  "lookup (Dir m (AList.update x n' es)) (y # ys) =
     (if y = x then lookup n' ys else lookup (Dir m es) (y # ys))"
  by (simp add: update_conv')

lemmas lookup_Dir_Cons = lookup.simps(3)

lemma lookup_snoc:
  "map_of es x = None \<Longrightarrow> lookup (Dir m (es @ [(x, v)])) (y # ys) =
     (if y = x then lookup v ys else lookup (Dir m es) (y # ys))"
  by (simp add: map_of_snoc del: map_of_append)

lemma lookup_File: "lookup (File c m) q = (if q = [] then Some (File c m) else None)"
  by (cases q) auto

lemma makedirs_in_fileinfo:
  "makedirs_in now t p = Inr t' \<Longrightarrow> fileinfo (lookup t' q) = fileinfo (lookup t q)"
proof (induction now t p arbitrary: t' q rule: makedirs_in.induct)
  case (4 now m es x xs)
  show ?case
  proof (cases q)
    case Nil
    with 4(2) show ?thesis by (auto split: option.splits sum.splits)
  next
    case (Cons y ys)
    show ?thesis
    proof (cases "map_of es x")
      case None
      with 4(2) have "t' = Dir now (es @ [(x, mkchain now xs)])" by simp
      with None Cons show ?thesis by (simp add: fileinfo_mkchain map_of_snoc update_conv' del: map_of_append)
    next
      case (Some n)
      with 4(2) obtain n' where n': "makedirs_in now n xs = Inr n'" "t' = Dir m (AList.update x n' es)"
        by (auto split: sum.splits)
      from 4(1)[OF Some n'(1)] have "fileinfo (lookup n' ys) = fileinfo (lookup n ys)" .
      with Some Cons n'(2) show ?thesis by (simp add: map_of_snoc update_conv' del: map_of_append)
    qed
  qed
qed auto

lemma makedirs_in_isdir:
  "makedirs_in now t p = Inr t' \<Longrightarrow> is_dir_opt (lookup t' q) = (is_dir_opt (lookup t q) \<or> prefix q p)"
proof (induction now t p arbitrary: t' q rule: makedirs_in.induct)
  case (3 now m es)
  then show ?case by (cases q) auto
next
  case (4 now m es x xs)
  show ?case
  proof (cases q)
    case Nil
    with 4(2) show ?thesis by (auto split: option.splits sum.splits)
  next
    case (Cons y ys)
    show ?thesis
    proof (cases "map_of es x")
      case None
      with 4(2) have "t' = Dir now (es @ [(x, mkchain now xs)])" by simp
      with None Cons show ?thesis by (auto simp add: isdir_mkchain map_of_snoc update_conv' simp del: map_of_append)
    next
      case (Some n)
      with 4(2) obtain n' where n': "makedirs_in now n xs = Inr n'" "t' = Dir m (AList.update x n' es)"
        by (auto split: sum.splits)
      from 4(1)[OF Some n'(1)]
      have "is_dir_opt (lookup n' ys) = (is_dir_opt (lookup n ys) \<or> prefix ys xs)" .
      with Some Cons n'(2) show ?thesis by (auto simp add: lookup_update map_of_snoc update_conv' simp del: map_of_append)
    qed
  qed
qed auto

lemma makedirs_in_ok:
  "(\<exists>t'. makedirs_in now t p = Inr t') = (\<forall>q. prefix q p \<longrightarrow> fileinfo (lookup t q) = None)"
proof (induction now t p rule: makedirs_in.induct)
  case (1 now c m)
  then show ?case by auto
next
  case (2 now c m x xs)
  then show ?case by (auto intro: exI[of _ "[]"])
next
  case (3 now m es)
  then show ?case by auto
next
  case (4 now m es x xs)
  show ?case
  proof (cases "map_of es x")
    case None
    then show ?thesis by (auto simp: prefix_Cons)
  next
    case (Some n)
    have "(\<forall>q. prefix q (x # xs) \<longrightarrow> fileinfo (lookup (Dir m es) q) = None)
        = (\<forall>q. prefix q xs \<longrightarrow> fileinfo (lookup n q) = None)"
      using Some by (auto simp: prefix_Cons)
    moreover have "(\<exists>t'. makedirs_in now (Dir m es) (x # xs) = Inr t') = (\<exists>t'. makedirs_in now n xs = Inr t')"
      using Some by (auto split: sum.splits)
    ultimately show ?thesis using 4[OF Some] by simp
  qed
qed

lemma write_file_fileinfo:
  "write_file now t p c m = Inr t' \<Longrightarrow>
     fileinfo (lookup t' q) = (if q = p then Some (c, m) else fileinfo (lookup t q))"
proof (induction now t p c m arbitrary: t' q rule: write_file.induct)
  case (1 now c' m' c m)
  then show ?case by (cases q) auto
next
  case (4 now m' es x xs c m)
  show ?case
  proof (cases q)
    case Nil
    with 4(2) show ?thesis by (auto split: option.splits sum.splits if_splits)
  next
    case (Cons y ys)
    show ?thesis
    proof (cases "map_of es x")
      case None
      with 4(2) have "xs = []" "t' = Dir now (es @ [(x, File c m)])" by (auto split: if_splits)
      with None Cons show ?thesis by (auto simp add: lookup_File map_of_snoc update_conv' simp del: map_of_append)
    next
      case (Some n)
      with 4(2) obtain n' where n': "write_file now n xs c m = Inr n'" "t' = Dir m' (AList.update x n' es)"
        by (auto split: sum.splits)
      from 4(1)[OF Some n'(1)]
      have "fileinfo (lookup n' ys) = (if ys = xs then Some (c, m) else fileinfo (lookup n ys))" .
      with Some Cons n'(2) show ?thesis by (auto simp add: lookup_update map_of_snoc update_conv' simp del: map_of_append)
    qed
  qed
qed auto

lemma write_file_isdir:
  "write_file now t p c m = Inr t' \<Longrightarrow> is_dir_opt (lookup t' q) = is_dir_opt (lookup t q)"
proof (induction now t p c m arbitrary: t' q rule: write_file.induct)
  case (1 now c' m' c m)
  then show ?case by (cases q) auto
next
  case (4 now m' es x xs c m)
  show ?case
  proof (cases q)
    case Nil
    with 4(2) show ?thesis by (auto split: option.splits sum.splits if_splits)
  next
    case (Cons y ys)
    show ?thesis
    proof (cases "map_of es x")
      case None
      with 4(2) have "xs = []" "t' = Dir now (es @ [(x, File c m)])" by (auto split: if_splits)
      with None Cons show ?thesis by (auto simp add: lookup_File map_of_snoc update_conv' simp del: map_of_append)
    next
      case (Some n)
      with 4(2) obtain n' where n': "write_file now n xs c m = Inr n'" "t' = Dir m' (AList.update x n' es)"
        by (auto split: sum.splits)
      from 4(1)[OF Some n'(1)]
      have "is_dir_opt (lookup n' ys) = is_dir_opt (lookup n ys)" .
      with Some Cons n'(2) show ?thesis by (auto simp add: lookup_update map_of_snoc update_conv' simp del: map_of_append)
    qed
  qed
qed auto

lemma write_file_ok:
  "p \<noteq> [] \<Longrightarrow> is_dir_opt (lookup t (butlast p)) \<Longrightarrow> \<not> is_dir_opt (lookup t p)
     \<Longrightarrow> \<exists>t'. write_file now t p c m = Inr t'"
proof (induction now t p c m rule: write_file.induct)
  case (4 now m' es x xs c m)
  show ?case
  proof (cases "map_of es x")
    case None
    with 4(3) show ?thesis by (cases xs) auto
  next
    case (Some n)
    show ?thesis
    proof (cases "xs = []")
      case True
      with 4(4) Some have "\<not> is_dir_opt (Some n)" by simp
      then obtain c' m' where "n = File c' m'" by (cases n) auto
      with Some True show ?thesis by simp
    next
      case False
      with 4(3,4) Some have "is_dir_opt (lookup n (butlast xs))" "\<not> is_dir_opt (lookup n xs)" by auto
      from 4(1)[OF Some False this] obtain n' where "write_file now n xs c m = Inr n'" by blast
      with Some show ?thesis by simp
    qed
  qed
qed (auto simp: lookup_File split: if_splits)

section \<open>The loops of the Merge Engine\<close>

text \<open>
  One directory of the walk: when the target directory exists and no file of the
  source directory meets a directory of that name, every file is merged by
  \<open>merge_rule\<close> and nothing else changes.
\<close>

lemma wfiles_simps [simp]:
  "wfiles [] = []"
  "wfiles ((rel, fs) # W) = dfiles rel fs @ wfiles W"
  "wfiles (W1 @ W2) = wfiles W1 @ wfiles W2"
  by (simp_all add: wfiles_def)

lemma dfiles_simps [simp]:
  "dfiles rel [] = []"
  "dfiles rel ((n, f) # fs) = (rel @ [n], f) # dfiles rel fs"
  by (simp_all add: dfiles_def)

lemma fst_dfiles: "fst ` set (dfiles rel fs) = (\<lambda>n. rel @ [n]) ` fst ` set fs"
  by (force simp: dfiles_def)

lemma mtime_fileinfo:
  "\<not> is_dir_opt (Some n) \<Longrightarrow> fileinfo (Some n) = Some (c', m') \<Longrightarrow> mtime_of n = m'"
  by (cases n) auto

lemma merge_files_char:
  assumes "is_dir_opt (lookup t rel)"
    and "\<forall>p \<in> fst ` set (dfiles rel fs). \<not> is_dir_opt (lookup t p)"
    and "distinct (map fst fs)"
  shows "\<exists>t'. merge_files now rel fs t = (Inr (), t')
           \<and> (\<forall>q. fileinfo (lookup t' q) =
                 (case map_of (dfiles rel fs) q of
                    None \<Rightarrow> fileinfo (lookup t q)
                  | Some f \<Rightarrow> Some (merge_rule f (fileinfo (lookup t q)))))
           \<and> (\<forall>q. is_dir_opt (lookup t' q) = is_dir_opt (lookup t q))"
  using assms
proof (induction fs arbitrary: t)
  case Nil
  then show ?case by simp
next
  case (Cons a fs)
  obtain n c m where a: "a = (n, c, m)" by (cases a)
  let ?tp = "rel @ [n]"
  from Cons.prems a have nd: "\<not> is_dir_opt (lookup t ?tp)" by simp
  have notin: "map_of (dfiles rel fs) ?tp = None"
    using Cons.prems(3) a by (auto simp: map_of_eq_None_iff fst_dfiles)
  define copy where "copy = (case lookup t ?tp of None \<Rightarrow> True | Some k \<Rightarrow> m > mtime_of k)"
  have rule: "Some (merge_rule (c, m) (fileinfo (lookup t ?tp)))
        = (if copy then Some (c, m) else fileinfo (lookup t ?tp))"
  proof (cases "lookup t ?tp")
    case None
    then show ?thesis by (simp add: copy_def merge_rule_def)
  next
    case (Some k)
    with nd obtain c' m' where "k = File c' m'" by (cases k) auto
    with Some show ?thesis by (auto simp: copy_def merge_rule_def)
  qed
  show ?case
  proof (cases copy)
    case True
    from nd have "\<not> isdir t ?tp" by (simp add: isdir_conv)
    moreover from write_file_ok[of ?tp t now c m] Cons.prems(1) nd
    obtain t1 where t1: "write_file now t ?tp c m = Inr t1" by auto
    ultimately have step: "merge_files now rel (a # fs) t = merge_files now rel fs t1"
      using True a by (simp add: copy_def copy2_def)
    have d1: "\<And>q. is_dir_opt (lookup t1 q) = is_dir_opt (lookup t q)"
      using write_file_isdir[OF t1] by simp
    have f1: "\<And>q. fileinfo (lookup t1 q) = (if q = ?tp then Some (c, m) else fileinfo (lookup t q))"
      using write_file_fileinfo[OF t1] by simp
    from Cons.prems have "is_dir_opt (lookup t1 rel)"
      "\<forall>p \<in> fst ` set (dfiles rel fs). \<not> is_dir_opt (lookup t1 p)" "distinct (map fst fs)"
      by (auto simp: d1 a)
    from Cons.IH[OF this] obtain t' where t': "merge_files now rel fs t1 = (Inr (), t')"
      "\<And>q. fileinfo (lookup t' q) =
                 (case map_of (dfiles rel fs) q of
                    None \<Rightarrow> fileinfo (lookup t1 q)
                  | Some f \<Rightarrow> Some (merge_rule f (fileinfo (lookup t1 q))))"
      "\<And>q. is_dir_opt (lookup t' q) = is_dir_opt (lookup t1 q)"
      by blast
    have "fileinfo (lookup t' q) =
            (case map_of (dfiles rel (a # fs)) q of
                    None \<Rightarrow> fileinfo (lookup t q)
                  | Some f \<Rightarrow> Some (merge_rule f (fileinfo (lookup t q))))" for q
    proof (cases "q = ?tp")
      case True
      then show ?thesis using t'(2)[of q] notin f1 rule \<open>copy\<close> a by simp
    next
      case False
      then show ?thesis using t'(2)[of q] f1 a by (auto split: option.splits)
    qed
    with step t'(1) t'(3) d1 show ?thesis by auto
  next
    case False
    then have step: "merge_files now rel (a # fs) t = merge_files now rel fs t"
      using a by (simp add: copy_def)
    from Cons.prems have "is_dir_opt (lookup t rel)"
      "\<forall>p \<in> fst ` set (dfiles rel fs). \<not> is_dir_opt (lookup t p)" "distinct (map fst fs)"
      by (auto simp: a)
    from Cons.IH[OF this] obtain t' where t': "merge_files now rel fs t = (Inr (), t')"
      "\<And>q. fileinfo (lookup t' q) =
                 (case map_of (dfiles rel fs) q of
                    None \<Rightarrow> fileinfo (lookup t q)
                  | Some f \<Rightarrow> Some (merge_rule f (fileinfo (lookup t q))))"
      "\<And>q. is_dir_opt (lookup t' q) = is_dir_opt (lookup t q)"
      by blast
    have "fileinfo (lookup t' q) =
            (case map_of (dfiles rel (a # fs)) q of
                    None \<Rightarrow> fileinfo (lookup t q)
                  | Some f \<Rightarrow> Some (merge_rule f (fileinfo (lookup t q))))" for q
    proof (cases "q = ?tp")
      case True
      then show ?thesis using t'(2)[of q] notin rule \<open>\<not> copy\<close> a by simp
    next
      case False
      then show ?thesis using t'(2)[of q] a by (auto split: option.splits)
    qed
    with step t'(1) t'(3) show ?thesis by auto
  qed
qed

text \<open>
  The whole walk, under what a walk of a well-formed tree into a compatible tree
  provides: no target file on the way to a walked directory, no target directory at a
  walked file, and no walked file above a walked directory.
\<close>

lemma file_at_Some [simp]: "file_at (Some t) q = fileinfo (lookup t q)"
  and dir_at_Some [simp]: "dir_at (Some t) q = is_dir_opt (lookup t q)"
  and file_at_None [simp]: "file_at None q = None"
  and dir_at_None [simp]: "dir_at None q = False"
  by (simp_all add: file_at_def dir_at_def stat_def)

lemma makedirs_char:
  assumes "\<forall>q. prefix q p \<longrightarrow> file_at t q = None"
  shows "\<exists>t1. makedirs now t p = Inr t1
           \<and> (\<forall>q. fileinfo (lookup t1 q) = file_at t q)
           \<and> (\<forall>q. is_dir_opt (lookup t1 q) = (dir_at t q \<or> prefix q p))"
proof (cases t)
  case None
  then show ?thesis by (simp add: makedirs_def fileinfo_mkchain isdir_mkchain)
next
  case (Some n)
  with assms makedirs_in_ok[of now n p] obtain t1 where "makedirs_in now n p = Inr t1" by auto
  with Some show ?thesis
    using makedirs_in_fileinfo[of now n p t1] makedirs_in_isdir[of now n p t1]
    by (simp add: makedirs_def)
qed

lemma merge_walk_char:
  assumes "distinct (map fst (wfiles W))"
    and "\<forall>d \<in> set (map fst W). \<forall>q. prefix q d \<longrightarrow> file_at t q = None"
    and "\<forall>p \<in> fst ` set (wfiles W). \<not> dir_at t p"
    and "\<forall>d \<in> set (map fst W). \<forall>q. prefix q d \<longrightarrow> q \<notin> fst ` set (wfiles W)"
  shows "\<exists>t'. merge_walk now W t = (Inr (), t')
           \<and> (\<forall>q. file_at t' q =
                 (case map_of (wfiles W) q of
                    None \<Rightarrow> file_at t q
                  | Some f \<Rightarrow> Some (merge_rule f (file_at t q))))
           \<and> (\<forall>q. dir_at t' q = (dir_at t q \<or> (\<exists>d \<in> set (map fst W). prefix q d)))"
  using assms
proof (induction W arbitrary: t)
  case Nil
  then show ?case by simp
next
  case (Cons a W)
  obtain rel fs where a: "a = (rel, fs)" by (cases a)
  from Cons.prems(2) a have "\<forall>q. prefix q rel \<longrightarrow> file_at t q = None" by simp
  from makedirs_char[OF this, of now] obtain t1 where t1: "makedirs now t rel = Inr t1"
    "\<And>q. fileinfo (lookup t1 q) = file_at t q"
    "\<And>q. is_dir_opt (lookup t1 q) = (dir_at t q \<or> prefix q rel)"
    by blast
  have dfs: "distinct (map fst (dfiles rel fs))" and dW: "distinct (map fst (wfiles W))"
    and disj: "fst ` set (dfiles rel fs) \<inter> fst ` set (wfiles W) = {}"
    using Cons.prems(1) a by auto
  have "distinct (map fst fs)"
    using dfs by (simp add: dfiles_def distinct_map comp_def case_prod_unfold inj_on_def)
  moreover have "is_dir_opt (lookup t1 rel)" by (simp add: t1(3))
  moreover have "\<forall>p \<in> fst ` set (dfiles rel fs). \<not> is_dir_opt (lookup t1 p)"
  proof
    fix p assume p: "p \<in> fst ` set (dfiles rel fs)"
    with Cons.prems(3) a have "\<not> dir_at t p" by auto
    moreover from p Cons.prems(4) a have "\<not> prefix p rel" by auto
    ultimately show "\<not> is_dir_opt (lookup t1 p)" by (simp add: t1(3))
  qed
  ultimately obtain t2 where t2: "merge_files now rel fs t1 = (Inr (), t2)"
    "\<And>q. fileinfo (lookup t2 q) =
                 (case map_of (dfiles rel fs) q of
                    None \<Rightarrow> fileinfo (lookup t1 q)
                  | Some f \<Rightarrow> Some (merge_rule f (fileinfo (lookup t1 q))))"
    "\<And>q. is_dir_opt (lookup t2 q) = is_dir_opt (lookup t1 q)"
    using merge_files_char[of t1 rel fs now] by blast
  have step: "merge_walk now (a # W) t = merge_walk now W (Some t2)"
    using a t1(1) t2(1) by simp
  have p2: "\<forall>d \<in> set (map fst W). \<forall>q. prefix q d \<longrightarrow> file_at (Some t2) q = None"
  proof (intro ballI allI impI)
    fix d q assume d: "d \<in> set (map fst W)" and q: "prefix q d"
    with Cons.prems(4) a have "q \<notin> fst ` set (dfiles rel fs)" by auto
    then have "map_of (dfiles rel fs) q = None" by (simp add: map_of_eq_None_iff)
    moreover from d q Cons.prems(2) have "file_at t q = None" by auto
    ultimately show "file_at (Some t2) q = None" by (simp add: t2(2) t1(2))
  qed
  have p3: "\<forall>p \<in> fst ` set (wfiles W). \<not> dir_at (Some t2) p"
  proof
    fix p assume p: "p \<in> fst ` set (wfiles W)"
    with Cons.prems(3) a have "\<not> dir_at t p" by auto
    moreover from p Cons.prems(4) a have "\<not> prefix p rel" by auto
    ultimately show "\<not> dir_at (Some t2) p" by (simp add: t2(3) t1(3))
  qed
  have p4: "\<forall>d \<in> set (map fst W). \<forall>q. prefix q d \<longrightarrow> q \<notin> fst ` set (wfiles W)"
    using Cons.prems(4) a by auto
  from Cons.IH[OF dW p2 p3 p4] obtain t' where t': "merge_walk now W (Some t2) = (Inr (), t')"
    "\<And>q. file_at t' q =
                 (case map_of (wfiles W) q of
                    None \<Rightarrow> file_at (Some t2) q
                  | Some f \<Rightarrow> Some (merge_rule f (file_at (Some t2) q)))"
    "\<And>q. dir_at t' q = (dir_at (Some t2) q \<or> (\<exists>d \<in> set (map fst W). prefix q d))"
    by blast
  have "file_at t' q =
                 (case map_of (wfiles (a # W)) q of
                    None \<Rightarrow> file_at t q
                  | Some f \<Rightarrow> Some (merge_rule f (file_at t q)))" for q
  proof (cases "map_of (wfiles W) q")
    case None
    then show ?thesis using t'(2)[of q] a by (auto simp add: t2(2) t1(2) map_add_def split: option.splits)
  next
    case (Some f)
    then have "q \<in> fst ` set (wfiles W)" by (metis map_of_eq_None_iff option.distinct(1))
    with disj have "q \<notin> fst ` set (dfiles rel fs)" by auto
    then have "map_of (dfiles rel fs) q = None" by (simp add: map_of_eq_None_iff)
    with Some show ?thesis using t'(2)[of q] a by (auto simp add: t2(2) t1(2) map_add_def split: option.splits)
  qed
  moreover have "dir_at t' q = (dir_at t q \<or> (\<exists>d \<in> set (map fst (a # W)). prefix q d))" for q
    using t'(3)[of q] a by (auto simp: t2(3) t1(3))
  ultimately show ?case using step t'(1) by auto
qed

section \<open>What \<open>os.walk\<close> visits\<close>

lemma lookup_append:
  "lookup s (p @ r) = (case lookup s p of None \<Rightarrow> None | Some n \<Rightarrow> lookup n r)"
proof (induction s p rule: lookup.induct)
  case (2 c m x xs)
  then show ?case by (cases r) auto
next
  case (3 m es x xs)
  then show ?case by (cases "map_of es x") auto
qed auto

lemma wfiles_concat: "wfiles (concat Ws) = concat (map wfiles Ws)"
  by (induction Ws) auto

lemma files_of_set: "((n, c, m) \<in> set (files_of es)) = ((n, File c m) \<in> set es)"
  by (induction es rule: files_of.induct) auto

lemma files_of_fst: "fst ` set (files_of es) \<subseteq> fst ` set es"
  by (induction es rule: files_of.induct) auto

lemma files_of_distinct: "distinct (map fst es) \<Longrightarrow> distinct (map fst (files_of es))"
proof (induction es rule: files_of.induct)
  case (2 n c m es)
  have "n \<notin> fst ` set (files_of es)" using files_of_fst[of es] 2(2) by auto
  with 2 show ?case by simp
qed auto

lemma dfiles_set: "((q, f) \<in> set (dfiles rel fs)) = (\<exists>n. q = rel @ [n] \<and> (n, f) \<in> set fs)"
  by (auto simp: dfiles_def)

lemma walk_files_set:
  "distinct_names s \<Longrightarrow>
   ((q, f) \<in> set (wfiles (os_walk_dir rel s)))
     = (\<exists>r. r \<noteq> [] \<and> q = rel @ r \<and> fileinfo (lookup s r) = Some f)"
proof (induction rel s arbitrary: q rule: os_walk_dir.induct)
  case (1 rel c m)
  then show ?case by (auto simp: lookup_File)
next
  case (2 rel dm es)
  have dist: "distinct (map fst es)" and sub: "\<And>n d. (n, d) \<in> set es \<Longrightarrow> distinct_names d"
    using 2(2) by auto
  have IH: "((q, f) \<in> set (wfiles (os_walk_dir (rel @ [n]) d)))
        = (\<exists>r. r \<noteq> [] \<and> q = rel @ [n] @ r \<and> fileinfo (lookup d r) = Some f)"
    if "(n, d) \<in> set es" for n d q
    using 2(1)[OF that refl sub[OF that]] by simp
  have mo: "\<And>x d. (map_of es x = Some d) = ((x, d) \<in> set es)"
    using dist by simp
  show ?case (is "?L = ?R")
  proof
    assume ?L
    then consider (here) "(q, f) \<in> set (dfiles rel (files_of es))"
      | (below) n d where "(n, d) \<in> set es" "(q, f) \<in> set (wfiles (os_walk_dir (rel @ [n]) d))"
      by (auto simp: wfiles_concat)
    then show ?R
    proof cases
      case here
      then obtain n where n: "q = rel @ [n]" "(n, f) \<in> set (files_of es)" by (auto simp: dfiles_set)
      obtain c m where f: "f = (c, m)" by (cases f)
      with n have "(n, File c m) \<in> set es" by (simp add: files_of_set)
      then have "map_of es n = Some (File c m)" by (simp add: mo)
      then have "fileinfo (lookup (Dir dm es) [n]) = Some f" by (simp add: f)
      with n show ?thesis by blast
    next
      case below
      then obtain r where r: "r \<noteq> []" "q = rel @ [n] @ r" "fileinfo (lookup d r) = Some f"
        using IH by blast
      from below(1) have "map_of es n = Some d" by (simp add: mo)
      with r have "fileinfo (lookup (Dir dm es) (n # r)) = Some f" by simp
      with r show ?thesis by (intro exI[of _ "n # r"]) simp
    qed
  next
    assume ?R
    then obtain r where r: "r \<noteq> []" "q = rel @ r" "fileinfo (lookup (Dir dm es) r) = Some f" by blast
    then obtain x r' where xr: "r = x # r'" by (cases r) auto
    with r(3) obtain d where d: "map_of es x = Some d" "fileinfo (lookup d r') = Some f"
      by (auto split: option.splits)
    then have mem: "(x, d) \<in> set es" by (simp add: mo)
    show ?L
    proof (cases "r' = []")
      case True
      with d(2) obtain c m where "d = File c m" "f = (c, m)" by (cases d) auto
      with mem have "(x, f) \<in> set (files_of es)" by (simp add: files_of_set)
      with True xr r(2) show ?thesis by (auto simp: dfiles_set)
    next
      case False
      with d(2) r(2) xr have "(q, f) \<in> set (wfiles (os_walk_dir (rel @ [x]) d))"
        using IH[OF mem] by auto
      with mem show ?thesis by (auto simp: wfiles_concat intro!: bexI[of _ "(x, d)"])
    qed
  qed
qed

lemma walk_dirs_set:
  "distinct_names s \<Longrightarrow>
   (d \<in> fst ` set (os_walk_dir rel s)) = (\<exists>r. d = rel @ r \<and> is_dir_opt (lookup s r))"
proof (induction rel s arbitrary: d rule: os_walk_dir.induct)
  case (1 rel c m)
  then show ?case by (auto simp: lookup_File)
next
  case (2 rel dm es)
  have dist: "distinct (map fst es)" and sub: "\<And>n k. (n, k) \<in> set es \<Longrightarrow> distinct_names k"
    using 2(2) by auto
  have IH: "(d \<in> fst ` set (os_walk_dir (rel @ [n]) k))
        = (\<exists>r. d = rel @ [n] @ r \<and> is_dir_opt (lookup k r))"
    if "(n, k) \<in> set es" for n k d
    using 2(1)[OF that refl sub[OF that]] by simp
  have mo: "\<And>x k. (map_of es x = Some k) = ((x, k) \<in> set es)"
    using dist by simp
  show ?case (is "?L = ?R")
  proof
    assume ?L
    then consider (here) "d = rel"
      | (below) n k where "(n, k) \<in> set es" "d \<in> fst ` set (os_walk_dir (rel @ [n]) k)"
      by force
    then show ?R
    proof cases
      case here
      then show ?thesis by (intro exI[of _ "[]"]) simp
    next
      case below
      then obtain r where r: "d = rel @ [n] @ r" "is_dir_opt (lookup k r)" using IH by blast
      from below(1) have "map_of es n = Some k" by (simp add: mo)
      with r show ?thesis by (intro exI[of _ "n # r"]) simp
    qed
  next
    assume ?R
    then obtain r where r: "d = rel @ r" "is_dir_opt (lookup (Dir dm es) r)" by blast
    show ?L
    proof (cases r)
      case Nil
      with r show ?thesis by simp
    next
      case (Cons x r')
      with r(2) obtain k where k: "map_of es x = Some k" "is_dir_opt (lookup k r')"
        by (auto split: option.splits)
      then have mem: "(x, k) \<in> set es" by (simp add: mo)
      with k(2) r(1) Cons have "d \<in> fst ` set (os_walk_dir (rel @ [x]) k)"
        using IH[OF mem] by auto
      with mem show ?thesis by force
    qed
  qed
qed

lemma walk_files_prefix:
  "(q, f) \<in> set (wfiles (os_walk_dir rel s)) \<Longrightarrow> \<exists>r. r \<noteq> [] \<and> q = rel @ r"
proof (induction rel s arbitrary: q rule: os_walk_dir.induct)
  case (1 rel c m)
  then show ?case by simp
next
  case (2 rel dm es)
  from 2(2) consider (here) "(q, f) \<in> set (dfiles rel (files_of es))"
    | (below) n d where "(n, d) \<in> set es" "(q, f) \<in> set (wfiles (os_walk_dir (rel @ [n]) d))"
    by (auto simp: wfiles_concat)
  then show ?case
  proof cases
    case here
    then show ?thesis by (auto simp: dfiles_set)
  next
    case below
    from 2(1)[OF below(1) refl below(2)] obtain r where "r \<noteq> []" "q = (rel @ [n]) @ r" by blast
    then show ?thesis by (intro exI[of _ "n # r"]) simp
  qed
qed

lemma children_files_form:
  "(q, f) \<in> set (wfiles (concat (map (\<lambda>(n, d). os_walk_dir (rel @ [n]) d) es)))
     \<Longrightarrow> \<exists>n r. n \<in> fst ` set es \<and> r \<noteq> [] \<and> q = rel @ [n] @ r"
proof (induction es)
  case Nil
  then show ?case by simp
next
  case (Cons a es)
  obtain n d where a: "a = (n, d)" by (cases a)
  from Cons.prems a consider (hd) "(q, f) \<in> set (wfiles (os_walk_dir (rel @ [n]) d))"
    | (tl) "(q, f) \<in> set (wfiles (concat (map (\<lambda>(n, d). os_walk_dir (rel @ [n]) d) es)))"
    by auto
  then show ?case
  proof cases
    case hd
    from walk_files_prefix[OF this] obtain r where "r \<noteq> []" "q = rel @ [n] @ r" by auto
    then show ?thesis using a by (intro exI[of _ n] exI[of _ r]) simp
  next
    case tl
    from Cons.IH[OF this] obtain k r where "k \<in> fst ` set es" "r \<noteq> []" "q = rel @ [k] @ r"
      by blast
    then show ?thesis by (intro exI[of _ k] exI[of _ r]) simp
  qed
qed

lemma children_files_distinct:
  assumes "distinct (map fst es)"
    and "\<And>n d. (n, d) \<in> set es \<Longrightarrow> distinct (map fst (wfiles (os_walk_dir (rel @ [n]) d)))"
  shows "distinct (map fst (wfiles (concat (map (\<lambda>(n, d). os_walk_dir (rel @ [n]) d) es))))"
  using assms
proof (induction es)
  case Nil
  then show ?case by simp
next
  case (Cons a es)
  obtain n d where a: "a = (n, d)" by (cases a)
  let ?A = "wfiles (os_walk_dir (rel @ [n]) d)"
  let ?B = "wfiles (concat (map (\<lambda>(n, d). os_walk_dir (rel @ [n]) d) es))"
  have mem: "(n, d) \<in> set (a # es)" using a by simp
  have dA: "distinct (map fst ?A)" using Cons.prems(2)[OF mem] .
  from Cons.prems(1) have d_es: "distinct (map fst es)" by simp
  have "distinct (map fst (wfiles (os_walk_dir (rel @ [k]) e)))" if "(k, e) \<in> set es" for k e
    using Cons.prems(2)[of k e] that by simp
  with Cons.IH[OF d_es] have dB: "distinct (map fst ?B)" by blast
  from Cons.prems(1) a have nn: "n \<notin> fst ` set es" by simp
  have disj: "fst x \<noteq> fst y" if x: "x \<in> set ?A" and y: "y \<in> set ?B" for x y
  proof
    assume eq: "fst x = fst y"
    obtain q f where xq: "x = (q, f)" by (cases x)
    obtain q' f' where yq: "y = (q', f')" by (cases y)
    from walk_files_prefix[of q f "rel @ [n]" d] x xq
    obtain r where r: "q = rel @ [n] @ r" by auto
    from children_files_form[of q' f' rel es] y yq
    obtain k r' where k: "k \<in> fst ` set es" "q' = rel @ [k] @ r'" by blast
    from eq xq yq r k(2) have "n = k" by simp
    with k(1) nn show False by simp
  qed
  have "wfiles (concat (map (\<lambda>(n, d). os_walk_dir (rel @ [n]) d) (a # es))) = ?A @ ?B"
    using a by simp
  moreover have "distinct (map fst (?A @ ?B))"
    unfolding map_append distinct_append using dA dB disj by auto
  ultimately show ?case by (simp only:)
qed

lemma walk_files_distinct:
  "distinct_names s \<Longrightarrow> distinct (map fst (wfiles (os_walk_dir rel s)))"
proof (induction rel s rule: os_walk_dir.induct)
  case (1 rel c m)
  then show ?case by simp
next
  case (2 rel dm es)
  have dist: "distinct (map fst es)" and sub: "\<And>n d. (n, d) \<in> set es \<Longrightarrow> distinct_names d"
    using 2(2) by auto
  have IH: "distinct (map fst (wfiles (os_walk_dir (rel @ [n]) d)))" if "(n, d) \<in> set es" for n d
    using 2(1)[OF that refl sub[OF that]] .
  let ?B = "wfiles (concat (map (\<lambda>(n, d). os_walk_dir (rel @ [n]) d) es))"
  from children_files_distinct[OF dist IH]
  have dB: "distinct (map fst ?B)" .
  have fB: "\<forall>q \<in> fst ` set ?B. \<exists>n r. n \<in> fst ` set es \<and> r \<noteq> [] \<and> q = rel @ [n] @ r"
  proof
    fix q assume "q \<in> fst ` set ?B"
    then obtain f where "(q, f) \<in> set ?B" by auto
    from children_files_form[OF this]
    show "\<exists>n r. n \<in> fst ` set es \<and> r \<noteq> [] \<and> q = rel @ [n] @ r" .
  qed
  have "distinct (map fst (files_of es))" using dist by (rule files_of_distinct)
  then have dA: "distinct (map fst (dfiles rel (files_of es)))"
    by (simp add: dfiles_def distinct_map comp_def case_prod_unfold inj_on_def)
  have "fst ` set (dfiles rel (files_of es)) \<inter> fst ` set ?B = {}"
  proof (rule ccontr)
    assume "fst ` set (dfiles rel (files_of es)) \<inter> fst ` set ?B \<noteq> {}"
    then obtain q where q: "q \<in> fst ` set (dfiles rel (files_of es))" "q \<in> fst ` set ?B" by blast
    from q(1) obtain k where "q = rel @ [k]" by (auto simp: fst_dfiles)
    moreover from q(2) fB obtain n r where "r \<noteq> []" "q = rel @ [n] @ r" by blast
    ultimately show False by auto
  qed
  with dA dB show ?case by auto
qed

section \<open>The Merge Engine, path by path\<close>

lemma dir_prefix: "is_dir_opt (lookup n (q @ r)) \<Longrightarrow> is_dir_opt (lookup n q)"
  by (cases "lookup n q" rule: is_dir_opt.cases) (auto simp: lookup_append lookup_File split: if_splits)

lemma file_not_dir: "fileinfo x = Some f \<Longrightarrow> \<not> is_dir_opt x"
  by (cases x rule: is_dir_opt.cases) auto

lemma merge_directories_char:
  assumes "wf_tree s" and "compatible s t"
  shows "\<exists>t'. merge_directories now s t = (Inr (), t')
           \<and> (\<forall>q. file_at t' q =
                 (if q = [] then file_at t q
                  else case file_at s q of
                         None \<Rightarrow> file_at t q
                       | Some f \<Rightarrow> Some (merge_rule f (file_at t q))))
           \<and> (\<forall>q. dir_at t' q = (dir_at t q \<or> dir_at s q))"
proof (cases s)
  case None
  then show ?thesis by (simp add: merge_directories_def os_walk_def)
next
  case (Some n)
  let ?W = "os_walk_dir [] n"
  from assms(1) Some have wf: "distinct_names n" by (simp add: wf_tree_def)
  have dW: "distinct (map fst (wfiles ?W))" using wf by (rule walk_files_distinct)
  have files: "map_of (wfiles ?W) q = (if q = [] then None else fileinfo (lookup n q))" for q
  proof (cases "q \<noteq> [] \<and> fileinfo (lookup n q) \<noteq> None")
    case True
    then obtain f where f: "fileinfo (lookup n q) = Some f" by auto
    with True have "(q, f) \<in> set (wfiles ?W)" using walk_files_set[OF wf, of q f "[]"] by simp
    with dW have "map_of (wfiles ?W) q = Some f" by simp
    with True f show ?thesis by simp
  next
    case False
    have "map_of (wfiles ?W) q = None"
    proof (rule ccontr)
      assume "map_of (wfiles ?W) q \<noteq> None"
      then obtain f where "map_of (wfiles ?W) q = Some f" by auto
      then have "(q, f) \<in> set (wfiles ?W)" by (rule map_of_SomeD)
      then have "q \<noteq> []" "fileinfo (lookup n q) = Some f"
        using walk_files_set[OF wf, of q f "[]"] by auto
      then have "q \<noteq> [] \<and> fileinfo (lookup n q) \<noteq> None" by simp
      with False show False by blast
    qed
    moreover from False have "q = [] \<or> fileinfo (lookup n q) = None" by blast
    ultimately show ?thesis by (cases "q = []") simp_all
  qed
  have dirs: "(d \<in> fst ` set ?W) = is_dir_opt (lookup n d)" for d
    using walk_dirs_set[OF wf, of d "[]"] by simp
  have updirs: "(\<exists>d \<in> set (map fst ?W). prefix q d) = is_dir_opt (lookup n q)" for q
  proof
    assume "\<exists>d \<in> set (map fst ?W). prefix q d"
    then obtain d where d: "d \<in> fst ` set ?W" "prefix q d" by auto
    from d(2) obtain r where r: "d = q @ r" unfolding prefix_def by blast
    from d(1) have "is_dir_opt (lookup n d)" by (simp only: dirs)
    with r have "is_dir_opt (lookup n (q @ r))" by simp
    then show "is_dir_opt (lookup n q)" by (rule dir_prefix)
  next
    assume "is_dir_opt (lookup n q)"
    then have "q \<in> set (map fst ?W)" using dirs[of q] by simp
    then show "\<exists>d \<in> set (map fst ?W). prefix q d" by blast
  qed
  have fset: "(p \<in> fst ` set (wfiles ?W)) = (p \<noteq> [] \<and> fileinfo (lookup n p) \<noteq> None)" for p
  proof -
    have "(p \<in> fst ` set (wfiles ?W)) = (map_of (wfiles ?W) p \<noteq> None)"
      by (simp add: map_of_eq_None_iff)
    also have "\<dots> = (p \<noteq> [] \<and> fileinfo (lookup n p) \<noteq> None)"
      by (simp only: files) simp
    finally show ?thesis .
  qed
  have a: "\<forall>d \<in> set (map fst ?W). \<forall>q. prefix q d \<longrightarrow> file_at t q = None"
  proof (intro ballI allI impI)
    fix d q assume "d \<in> set (map fst ?W)" "prefix q d"
    then have "is_dir_opt (lookup n q)" using updirs[of q] by blast
    with assms(2) Some show "file_at t q = None" by (simp add: compatible_def)
  qed
  have b: "\<forall>p \<in> fst ` set (wfiles ?W). \<not> dir_at t p"
    using assms(2) Some fset by (simp add: compatible_def)
  have c: "\<forall>d \<in> set (map fst ?W). \<forall>q. prefix q d \<longrightarrow> q \<notin> fst ` set (wfiles ?W)"
  proof (intro ballI allI impI)
    fix d q assume "d \<in> set (map fst ?W)" "prefix q d"
    then have "is_dir_opt (lookup n q)" using updirs[of q] by blast
    then have "fileinfo (lookup n q) = None" using file_not_dir by (cases "fileinfo (lookup n q)") auto
    then show "q \<notin> fst ` set (wfiles ?W)" by (simp add: fset)
  qed
  from merge_walk_char[OF dW a b c, of now] obtain t' where t':
    "merge_walk now ?W t = (Inr (), t')"
    "\<And>q. file_at t' q = (case map_of (wfiles ?W) q of None \<Rightarrow> file_at t q
                  | Some f \<Rightarrow> Some (merge_rule f (file_at t q)))"
    "\<And>q. dir_at t' q = (dir_at t q \<or> (\<exists>d \<in> set (map fst ?W). prefix q d))"
    by blast
  have "merge_directories now s t = (Inr (), t')"
    using t'(1) Some by (simp add: merge_directories_def os_walk_def)
  moreover have "\<forall>q. file_at t' q =
                 (if q = [] then file_at t q
                  else case file_at s q of
                         None \<Rightarrow> file_at t q
                       | Some f \<Rightarrow> Some (merge_rule f (file_at t q)))"
    using t'(2) files Some by simp
  moreover have "\<forall>q. dir_at t' q = (dir_at t q \<or> dir_at s q)"
    using t'(3) updirs Some by simp
  ultimately show ?thesis by blast
qed

lemma compatible_sym: "compatible s t \<Longrightarrow> compatible t s"
  unfolding compatible_def by (metis not_None_eq)

lemma file_dir_excl: "file_at s p = Some f \<Longrightarrow> \<not> dir_at s p"
  by (simp add: file_at_def dir_at_def file_not_dir)

lemma compatible_after_merge:
  assumes "compatible s t" and "compatible s s1"
    and fchar: "\<forall>q. file_at t1 q =
                 (if q = [] then file_at t q
                  else case file_at s1 q of
                         None \<Rightarrow> file_at t q
                       | Some f \<Rightarrow> Some (merge_rule f (file_at t q)))"
    and dchar: "\<forall>q. dir_at t1 q = (dir_at t q \<or> dir_at s1 q)"
  shows "compatible s t1"
  unfolding compatible_def
proof (intro allI conjI impI)
  fix p assume "file_at s p \<noteq> None"
  with assms(1,2) have "\<not> dir_at t p" "\<not> dir_at s1 p" by (auto simp: compatible_def)
  then show "\<not> dir_at t1 p" by (simp add: dchar)
next
  fix p assume d: "dir_at s p"
  with assms(1,2) have n: "file_at t p = None" "file_at s1 p = None" by (auto simp: compatible_def)
  show "file_at t1 p = None" using n by (auto simp: fchar)
qed

lemma merge_rule_ge: "snd (merge_rule f (Some (c, m))) \<ge> m"
  by (simp add: merge_rule_def)

lemma merge_all_monotone:
  assumes "\<forall>(now, s) \<in> set Ss. wf_tree s \<and> compatible s t"
    and "\<forall>(n1, s1) \<in> set Ss. \<forall>(n2, s2) \<in> set Ss. compatible s1 s2"
  shows "\<exists>t'. merge_all Ss t = (Inr (), t')
           \<and> (\<forall>q c m. file_at t q = Some (c, m) \<longrightarrow> (\<exists>c' m'. file_at t' q = Some (c', m') \<and> m \<le> m'))"
  using assms
proof (induction Ss arbitrary: t)
  case Nil
  then show ?case by simp
next
  case (Cons a Ss)
  obtain now s where a: "a = (now, s)" by (cases a)
  from Cons.prems(1) a have "wf_tree s" "compatible s t" by auto
  from merge_directories_char[OF this, of now] obtain t1 where t1:
    "merge_directories now s t = (Inr (), t1)"
    "\<forall>q. file_at t1 q =
                 (if q = [] then file_at t q
                  else case file_at s q of
                         None \<Rightarrow> file_at t q
                       | Some f \<Rightarrow> Some (merge_rule f (file_at t q)))"
    "\<forall>q. dir_at t1 q = (dir_at t q \<or> dir_at s q)"
    by blast
  have p1: "\<forall>(now, s') \<in> set Ss. wf_tree s' \<and> compatible s' t1"
  proof (intro ballI, clarify)
    fix n' s' assume m: "(n', s') \<in> set Ss"
    with Cons.prems(1) have "wf_tree s'" "compatible s' t" by auto
    moreover from m Cons.prems(2) a have "compatible s' s" by auto
    ultimately show "wf_tree s' \<and> compatible s' t1"
      using compatible_after_merge[OF _ _ t1(2) t1(3)] by blast
  qed
  have p2: "\<forall>(n1, s1) \<in> set Ss. \<forall>(n2, s2) \<in> set Ss. compatible s1 s2"
    using Cons.prems(2) by auto
  from Cons.IH[OF p1 p2] obtain t' where t': "merge_all Ss t1 = (Inr (), t')"
    "\<And>q c m. file_at t1 q = Some (c, m) \<Longrightarrow> \<exists>c' m'. file_at t' q = Some (c', m') \<and> m \<le> m'"
    by blast
  have "\<exists>c' m'. file_at t' q = Some (c', m') \<and> m \<le> m'" if q: "file_at t q = Some (c, m)" for q c m
  proof -
    have "\<exists>c1 m1. file_at t1 q = Some (c1, m1) \<and> m \<le> m1"
    proof (cases "q = [] \<or> file_at s q = None")
      case True
      then have "file_at t1 q = Some (c, m)" using t1(2) q by auto
      then show ?thesis by simp
    next
      case False
      then obtain f where "file_at s q = Some f" by auto
      with False have "file_at t1 q = Some (merge_rule f (Some (c, m)))" using t1(2) q by simp
      then show ?thesis using merge_rule_ge[of m f c] by (cases "merge_rule f (Some (c, m))") auto
    qed
    then obtain c1 m1 where "file_at t1 q = Some (c1, m1)" "m \<le> m1" by blast
    with t'(2)[of q c1 m1] show ?thesis by force
  qed
  with t'(1) t1(1) a show ?case by auto
qed

lemma compat_nodes_pointwise:
  "compat_nodes s t \<Longrightarrow>
     (fileinfo (lookup s p) \<noteq> None \<longrightarrow> \<not> is_dir_opt (lookup t p))
   \<and> (is_dir_opt (lookup s p) \<longrightarrow> fileinfo (lookup t p) = None)"
proof (induction s t arbitrary: p rule: compat_nodes.induct)
  case (1 c m c' m')
  then show ?case by (simp add: lookup_File)
next
  case (4 m es m' es')
  show ?case
  proof (cases p)
    case Nil
    then show ?thesis by simp
  next
    case (Cons x xs)
    show ?thesis
    proof (cases "map_of es x")
      case None
      with Cons show ?thesis by simp
    next
      case (Some d)
      then have mem: "(x, d) \<in> set es" by (rule map_of_SomeD)
      show ?thesis
      proof (cases "map_of es' x")
        case None
        with Cons show ?thesis by simp
      next
        case (Some d')
        with mem 4(2) have "compat_nodes d d'" by auto
        from 4(1)[OF mem refl Some this, of xs] Cons Some \<open>map_of es x = Some d\<close>
        show ?thesis by simp
      qed
    qed
  qed
qed auto

lemma compat_nodes_sound: "compat_nodes s t \<Longrightarrow> compatible (Some s) (Some t)"
  unfolding compatible_def using compat_nodes_pointwise[of s t] by simp

lemma compatible_None [simp]: "compatible s None" "compatible None t"
  by (simp_all add: compatible_def)

section \<open>Claims about the Merge Engine\<close>

text \<open>
  Claim C1, as the code has it.  Let the source tree list no name twice in one
  directory, and let no path be a regular file in one of the two trees and a directory
  in the other.  Then \<open>merge_directories\<close> returns without an exception, and for every
  file of the source tree: it replaces the canonical counterpart, time stamp included,
  exactly when the counterpart does not exist or is strictly older; otherwise the
  canonical file keeps its content and time stamp.  No other file of the canonical tree
  changes.  Hence along any sequence of such merges (the sources also compatible with
  one another) the time stamp of a canonical file never decreases.
\<close>

theorem merge_directories_last_modification_wins:
  "(wf_tree source \<and> compatible source canonical \<longrightarrow>
      (\<exists>canonical'. merge_directories now source canonical = (Inr (), canonical')
         \<and> (\<forall>p c m. p \<noteq> [] \<and> file_at source p = Some (c, m) \<longrightarrow>
               file_at canonical' p =
                 (if stat canonical p = None \<or> (\<exists>c' m'. file_at canonical p = Some (c', m') \<and> m' < m)
                  then Some (c, m) else file_at canonical p))
         \<and> (\<forall>p. p = [] \<or> file_at source p = None \<longrightarrow> file_at canonical' p = file_at canonical p)))
   \<and> ((\<forall>(now, s) \<in> set sources. wf_tree s \<and> compatible s canonical)
        \<and> (\<forall>(n1, s1) \<in> set sources. \<forall>(n2, s2) \<in> set sources. compatible s1 s2) \<longrightarrow>
      (\<exists>final. merge_all sources canonical = (Inr (), final)
         \<and> (\<forall>p c m. file_at canonical p = Some (c, m) \<longrightarrow>
               (\<exists>c' m'. file_at final p = Some (c', m') \<and> m \<le> m'))))"
proof (intro conjI impI)
  assume h: "wf_tree source \<and> compatible source canonical"
  then have wf: "wf_tree source" and co: "compatible source canonical" by auto
  from merge_directories_char[OF wf co, of now] obtain t' where t':
    "merge_directories now source canonical = (Inr (), t')"
    "\<And>q. file_at t' q =
                 (if q = [] then file_at canonical q
                  else case file_at source q of
                         None \<Rightarrow> file_at canonical q
                       | Some f \<Rightarrow> Some (merge_rule f (file_at canonical q)))"
    by blast
  have "file_at t' p =
          (if stat canonical p = None \<or> (\<exists>c' m'. file_at canonical p = Some (c', m') \<and> m' < m)
           then Some (c, m) else file_at canonical p)"
    if p: "p \<noteq> [] \<and> file_at source p = Some (c, m)" for p c m
  proof (cases "stat canonical p")
    case None
    then have "file_at canonical p = None" by (simp add: file_at_def)
    with p None show ?thesis by (simp add: t'(2) merge_rule_def)
  next
    case (Some k)
    from p co have "\<not> dir_at canonical p" by (auto simp: compatible_def)
    with Some obtain c' m' where k: "k = File c' m'" by (cases k) (auto simp: dir_at_def)
    with Some have "file_at canonical p = Some (c', m')" by (simp add: file_at_def)
    with p Some show ?thesis by (simp add: t'(2) merge_rule_def)
  qed
  moreover have "file_at t' p = file_at canonical p" if "p = [] \<or> file_at source p = None" for p
    using that by (auto simp: t'(2))
  ultimately show "\<exists>canonical'. merge_directories now source canonical = (Inr (), canonical')
         \<and> (\<forall>p c m. p \<noteq> [] \<and> file_at source p = Some (c, m) \<longrightarrow>
               file_at canonical' p =
                 (if stat canonical p = None \<or> (\<exists>c' m'. file_at canonical p = Some (c', m') \<and> m' < m)
                  then Some (c, m) else file_at canonical p))
         \<and> (\<forall>p. p = [] \<or> file_at source p = None \<longrightarrow> file_at canonical' p = file_at canonical p)"
    using t'(1) by blast
next
  assume "(\<forall>(now, s) \<in> set sources. wf_tree s \<and> compatible s canonical)
        \<and> (\<forall>(n1, s1) \<in> set sources. \<forall>(n2, s2) \<in> set sources. compatible s1 s2)"
  then show "\<exists>final. merge_all sources canonical = (Inr (), final)
         \<and> (\<forall>p c m. file_at canonical p = Some (c, m) \<longrightarrow>
               (\<exists>c' m'. file_at final p = Some (c', m') \<and> m \<le> m'))"
    using merge_all_monotone[of sources canonical] by blast
qed

text \<open>
  The theorem at work: a newer and an older source file beside a new subdirectory, and
  the two-endpoint sequence over a canonical file of time 2000.
\<close>

theorem merge_directories_last_modification_wins_witness:
  "wf_tree (Some ex_source) \<and> compatible (Some ex_source) (Some ex_canonical)
   \<and> (\<exists>canonical'. merge_directories 5 (Some ex_source) (Some ex_canonical) = (Inr (), canonical')
         \<and> file_at canonical' [''x.txt''] = Some (''new'', 2500)
         \<and> file_at canonical' [''y.txt''] = Some (''kept'', 20)
         \<and> file_at canonical' [''d'', ''z.txt''] = Some (''fresh'', 7))
   \<and> (\<exists>final. merge_all [(1, Some endpoint_a), (2, Some endpoint_b)] (Some canonical_2000) = (Inr (), final)
         \<and> (\<exists>c' m'. file_at final [''x.txt''] = Some (c', m') \<and> 2000 \<le> m'))"
proof -
  have h1: "wf_tree (Some ex_source)" by (simp add: wf_tree_def ex_source_def)
  have h2: "compatible (Some ex_source) (Some ex_canonical)"
    by (rule compat_nodes_sound) (simp add: ex_source_def ex_canonical_def)
  have s1: "file_at (Some ex_source) [''x.txt''] = Some (''new'', 2500)"
    "file_at (Some ex_source) [''y.txt''] = Some (''stale'', 10)"
    "file_at (Some ex_source) [''d'', ''z.txt''] = Some (''fresh'', 7)"
    by (simp_all add: ex_source_def file_at_def stat_def)
  have c1: "file_at (Some ex_canonical) [''x.txt''] = Some (''v1'', 2000)"
    "file_at (Some ex_canonical) [''y.txt''] = Some (''kept'', 20)"
    "stat (Some ex_canonical) [''d'', ''z.txt''] = None"
    "stat (Some ex_canonical) [''x.txt''] = Some (File ''v1'' 2000)"
    "stat (Some ex_canonical) [''y.txt''] = Some (File ''kept'' 20)"
    by (simp_all add: ex_canonical_def file_at_def stat_def)
  have g1: "\<forall>(now, s) \<in> set [(1::int, Some endpoint_a), (2, Some endpoint_b)].
               wf_tree s \<and> compatible s (Some canonical_2000)"
    by (auto simp: wf_tree_def endpoint_a_def endpoint_b_def canonical_2000_def
             intro!: compat_nodes_sound)
  have g2: "\<forall>(n1, s1) \<in> set [(1::int, Some endpoint_a), (2, Some endpoint_b)].
            \<forall>(n2, s2) \<in> set [(1::int, Some endpoint_a), (2, Some endpoint_b)]. compatible s1 s2"
    by (auto simp: endpoint_a_def endpoint_b_def intro!: compat_nodes_sound)
  have c2: "file_at (Some canonical_2000) [''x.txt''] = Some (''merged'', 2000)"
    by (simp add: canonical_2000_def file_at_def stat_def)
  note rule1 = merge_directories_last_modification_wins[where source = "Some ex_source"
      and canonical = "Some ex_canonical" and now = 5 and sources = "[]"]
  from rule1 h1 h2 obtain t' where t':
    "merge_directories 5 (Some ex_source) (Some ex_canonical) = (Inr (), t')"
    "\<forall>p c m. p \<noteq> [] \<and> file_at (Some ex_source) p = Some (c, m) \<longrightarrow>
               file_at t' p =
                 (if stat (Some ex_canonical) p = None
                     \<or> (\<exists>c' m'. file_at (Some ex_canonical) p = Some (c', m') \<and> m' < m)
                  then Some (c, m) else file_at (Some ex_canonical) p)"
    by blast
  have a: "file_at t' [''x.txt''] = Some (''new'', 2500)"
    using t'(2)[rule_format, of "[''x.txt'']" "''new''" 2500] s1 c1 by simp
  have b: "file_at t' [''y.txt''] = Some (''kept'', 20)"
    using t'(2)[rule_format, of "[''y.txt'']" "''stale''" 10] s1 c1 by simp
  have c: "file_at t' [''d'', ''z.txt''] = Some (''fresh'', 7)"
    using t'(2)[rule_format, of "[''d'', ''z.txt'']" "''fresh''" 7] s1 c1 by simp
  note rule2 = merge_directories_last_modification_wins[where source = None
      and canonical = "Some canonical_2000" and now = 0
      and sources = "[(1, Some endpoint_a), (2, Some endpoint_b)]"]
  from rule2 g1 g2 obtain final where final:
    "merge_all [(1, Some endpoint_a), (2, Some endpoint_b)] (Some canonical_2000) = (Inr (), final)"
    "\<forall>p c m. file_at (Some canonical_2000) p = Some (c, m) \<longrightarrow>
               (\<exists>c' m'. file_at final p = Some (c', m') \<and> m \<le> m')"
    by blast
  from final(2) c2 have d: "\<exists>c' m'. file_at final [''x.txt''] = Some (c', m') \<and> 2000 \<le> m'"
    by blast
  show ?thesis using h1 h2 t'(1) a b c final(1) d by blast
qed

text \<open>
  Without compatibility the claim fails.  The source file \<open>a\<close> (time 5) meets a
  canonical directory \<open>a\<close> (time 1): the path exists and is older, so \<open>shutil.copy2\<close>
  is called, and it copies into the directory, over the canonical file \<open>a/a\<close> of time
  100, whose time stamp thereby falls to 5.
\<close>

theorem merge_regresses_inside_directory_counterexample:
  "file_at (Some (Dir 1 [(''a'', Dir 1 [(''a'', File ''old'' 100)])])) [''a'', ''a''] = Some (''old'', 100)
   \<and> merge_directories 9 (Some (Dir 0 [(''a'', File ''new'' 5)]))
        (Some (Dir 1 [(''a'', Dir 1 [(''a'', File ''old'' 100)])]))
      = (Inr (), Some (Dir 1 [(''a'', Dir 1 [(''a'', File ''new'' 5)])]))"
  by (simp add: merge_directories_def os_walk_def makedirs_def copy2_def isdir_def file_at_def stat_def)

text \<open>
  Claim C3, as the code has it.  For well-formed, pairwise compatible trees \<open>A\<close>,
  \<open>B\<close> and \<open>C\<close> and a path that is a file in \<open>A\<close> and in \<open>B\<close> with different time
  stamps, merging \<open>B\<close> then \<open>A\<close> into \<open>C\<close> and merging \<open>A\<close> then \<open>B\<close> both return,
  and leave the same content and time stamp at that path: the canonical file's own when
  it is at least as new as both, and otherwise those of the newer of the two sources.
\<close>

theorem merge_directories_order_irrelevant:
  assumes "wf_tree A" and "wf_tree B"
    and "compatible A C" and "compatible B C" and "compatible A B"
    and "p \<noteq> []" and "file_at A p = Some (ca, ma)" and "file_at B p = Some (cb, mb)"
    and "ma \<noteq> mb"
  shows "\<exists>C1 C2 R1 R2.
           merge_directories n1 B C = (Inr (), C1) \<and> merge_directories n2 A C1 = (Inr (), R1)
         \<and> merge_directories n3 A C = (Inr (), C2) \<and> merge_directories n4 B C2 = (Inr (), R2)
         \<and> file_at R1 p = file_at R2 p
         \<and> file_at R1 p =
             Some (case file_at C p of
                     None \<Rightarrow> if mb < ma then (ca, ma) else (cb, mb)
                   | Some (cc, mc) \<Rightarrow>
                       if ma \<le> mc \<and> mb \<le> mc then (cc, mc)
                       else if mb < ma then (ca, ma) else (cb, mb))"
proof -
  from merge_directories_char[OF assms(2,4), of n1] obtain C1 where C1:
    "merge_directories n1 B C = (Inr (), C1)"
    "\<forall>q. file_at C1 q =
                 (if q = [] then file_at C q
                  else case file_at B q of
                         None \<Rightarrow> file_at C q
                       | Some f \<Rightarrow> Some (merge_rule f (file_at C q)))"
    "\<forall>q. dir_at C1 q = (dir_at C q \<or> dir_at B q)"
    by blast
  have "compatible A C1" using compatible_after_merge[OF assms(3,5) C1(2,3)] .
  from merge_directories_char[OF assms(1) this, of n2] obtain R1 where R1:
    "merge_directories n2 A C1 = (Inr (), R1)"
    "\<forall>q. file_at R1 q =
                 (if q = [] then file_at C1 q
                  else case file_at A q of
                         None \<Rightarrow> file_at C1 q
                       | Some f \<Rightarrow> Some (merge_rule f (file_at C1 q)))"
    by blast
  from merge_directories_char[OF assms(1,3), of n3] obtain C2 where C2:
    "merge_directories n3 A C = (Inr (), C2)"
    "\<forall>q. file_at C2 q =
                 (if q = [] then file_at C q
                  else case file_at A q of
                         None \<Rightarrow> file_at C q
                       | Some f \<Rightarrow> Some (merge_rule f (file_at C q)))"
    "\<forall>q. dir_at C2 q = (dir_at C q \<or> dir_at A q)"
    by blast
  have "compatible B C2"
    using compatible_after_merge[OF assms(4) compatible_sym[OF assms(5)] C2(2,3)] .
  from merge_directories_char[OF assms(2) this, of n4] obtain R2 where R2:
    "merge_directories n4 B C2 = (Inr (), R2)"
    "\<forall>q. file_at R2 q =
                 (if q = [] then file_at C2 q
                  else case file_at B q of
                         None \<Rightarrow> file_at C2 q
                       | Some f \<Rightarrow> Some (merge_rule f (file_at C2 q)))"
    by blast
  have r1: "file_at R1 p = Some (merge_rule (ca, ma) (Some (merge_rule (cb, mb) (file_at C p))))"
    using R1(2) C1(2) assms(6,7,8) by simp
  have r2: "file_at R2 p = Some (merge_rule (cb, mb) (Some (merge_rule (ca, ma) (file_at C p))))"
    using R2(2) C2(2) assms(6,7,8) by simp
  have v1: "merge_rule (ca, ma) (Some (merge_rule (cb, mb) (file_at C p))) =
          (case file_at C p of
                     None \<Rightarrow> if mb < ma then (ca, ma) else (cb, mb)
                   | Some (cc, mc) \<Rightarrow>
                       if ma \<le> mc \<and> mb \<le> mc then (cc, mc)
                       else if mb < ma then (ca, ma) else (cb, mb))"
    using assms(9) by (auto simp: merge_rule_def split: option.splits)
  have v2: "merge_rule (cb, mb) (Some (merge_rule (ca, ma) (file_at C p))) =
          (case file_at C p of
                     None \<Rightarrow> if mb < ma then (ca, ma) else (cb, mb)
                   | Some (cc, mc) \<Rightarrow>
                       if ma \<le> mc \<and> mb \<le> mc then (cc, mc)
                       else if mb < ma then (ca, ma) else (cb, mb))"
    using assms(9) by (auto simp: merge_rule_def split: option.splits)
  show ?thesis
    using C1(1) R1(1) C2(1) R2(1) r1 r2 v1 v2 by (intro exI[of _ C1] exI[of _ C2] exI[of _ R1] exI[of _ R2]) simp
qed

theorem merge_directories_order_irrelevant_witness:
  "wf_tree (Some endpoint_a) \<and> wf_tree (Some endpoint_b)
   \<and> compatible (Some endpoint_a) (Some canonical_2000)
   \<and> compatible (Some endpoint_b) (Some canonical_2000)
   \<and> compatible (Some endpoint_a) (Some endpoint_b)
   \<and> file_at (Some endpoint_a) [''x.txt''] = Some (''from A'', 1500)
   \<and> file_at (Some endpoint_b) [''x.txt''] = Some (''from B'', 2500)
   \<and> (\<exists>C1 C2 R1 R2.
           merge_directories 1 (Some endpoint_b) (Some canonical_2000) = (Inr (), C1)
         \<and> merge_directories 2 (Some endpoint_a) C1 = (Inr (), R1)
         \<and> merge_directories 3 (Some endpoint_a) (Some canonical_2000) = (Inr (), C2)
         \<and> merge_directories 4 (Some endpoint_b) C2 = (Inr (), R2)
         \<and> file_at R1 [''x.txt''] = file_at R2 [''x.txt'']
         \<and> file_at R1 [''x.txt''] = Some (''from B'', 2500))"
proof -
  have h1: "wf_tree (Some endpoint_a)" and h2: "wf_tree (Some endpoint_b)"
    by (simp_all add: wf_tree_def endpoint_a_def endpoint_b_def)
  have h3: "compatible (Some endpoint_a) (Some canonical_2000)"
    by (rule compat_nodes_sound) (simp add: endpoint_a_def canonical_2000_def)
  have h4: "compatible (Some endpoint_b) (Some canonical_2000)"
    by (rule compat_nodes_sound) (simp add: endpoint_b_def canonical_2000_def)
  have h5: "compatible (Some endpoint_a) (Some endpoint_b)"
    by (rule compat_nodes_sound) (simp add: endpoint_a_def endpoint_b_def)
  have h6: "[''x.txt''] \<noteq> []" by simp
  have h7: "file_at (Some endpoint_a) [''x.txt''] = Some (''from A'', 1500)"
    by (simp add: endpoint_a_def file_at_def stat_def)
  have h8: "file_at (Some endpoint_b) [''x.txt''] = Some (''from B'', 2500)"
    by (simp add: endpoint_b_def file_at_def stat_def)
  have h9: "(1500::int) \<noteq> 2500" by simp
  have c: "file_at (Some canonical_2000) [''x.txt''] = Some (''merged'', 2000)"
    by (simp add: canonical_2000_def file_at_def stat_def)
  from merge_directories_order_irrelevant[OF h1 h2 h3 h4 h5 h6 h7 h8 h9, of 1 2 3 4]
  obtain C1 C2 R1 R2 where r:
    "merge_directories 1 (Some endpoint_b) (Some canonical_2000) = (Inr (), C1)"
    "merge_directories 2 (Some endpoint_a) C1 = (Inr (), R1)"
    "merge_directories 3 (Some endpoint_a) (Some canonical_2000) = (Inr (), C2)"
    "merge_directories 4 (Some endpoint_b) C2 = (Inr (), R2)"
    "file_at R1 [''x.txt''] = file_at R2 [''x.txt'']"
    "file_at R1 [''x.txt''] =
       Some (case file_at (Some canonical_2000) [''x.txt''] of
               None \<Rightarrow> if (2500::int) < 1500 then (''from A'', 1500) else (''from B'', 2500)
             | Some (cc, mc) \<Rightarrow>
                 if 1500 \<le> mc \<and> 2500 \<le> mc then (cc, mc)
                 else if (2500::int) < 1500 then (''from A'', 1500) else (''from B'', 2500))"
    by blast
  from r(6) have "file_at R1 [''x.txt''] = Some (''from B'', 2500)" by (simp only: c) simp
  with r(1-5) h1 h2 h3 h4 h5 h7 h8 show ?thesis by blast
qed

text \<open>
  The claim says the winner is the newer of the two sources.  With a canonical file of
  time 3000 against sources of times 1500 and 2500, both orders keep the canonical
  file.
\<close>

theorem merge_directories_newer_canonical_counterexample:
  "file_at (snd (merge_directories 2 (Some endpoint_a)
                   (snd (merge_directories 1 (Some endpoint_b) (Some canonical_3000)))))
     [''x.txt''] = Some (''merged'', 3000)
   \<and> file_at (snd (merge_directories 4 (Some endpoint_b)
                   (snd (merge_directories 3 (Some endpoint_a) (Some canonical_3000)))))
     [''x.txt''] = Some (''merged'', 3000)
   \<and> file_at (Some endpoint_b) [''x.txt''] = Some (''from B'', 2500)"
  by (simp add: eval_merge endpoint_a_def endpoint_b_def canonical_3000_def)

text \<open>
  Claim C10.  When the source path does not exist, \<open>os.walk\<close> yields nothing:
  \<open>merge_directories\<close> returns without an exception and the canonical tree, missing or
  not, is exactly what it was.
\<close>

theorem merge_directories_missing_source:
  "merge_directories now None canonical = (Inr (), canonical)"
  by (simp add: merge_directories_def os_walk_def)

section \<open>Claims about the Listing Resolver\<close>

lemma foldl_parse_line_short:
  "length (str_split line) < 9 \<Longrightarrow>
     foldl parse_line items (before @ line # after) = foldl parse_line items (before @ after)"
  by (simp add: parse_line_def)

lemma strptime_year: "strptime s = Inr t \<Longrightarrow> tm_year t = 1900"
  by (auto simp: strptime_def split: if_splits list.splits option.splits prod.splits)

text \<open>
  Claim C5, as the code has it.  A line of fewer than nine fields changes nothing, and
  the lines around it are processed as if it were not there.  A line of at least nine
  fields sets the entry of its last field to \<open>mktime\<close> of fields 5 to 7 parsed as
  month, day, hour and minute, or to 0 when they do not parse.  The parsed time never
  has another year than 1900: the program gives the parser no year.
\<close>

theorem listing_resolver_parse_line:
  "(length (str_split line) < 9 \<longrightarrow>
      parse_line items line = items
    \<and> foldl parse_line items (before @ line # after) = foldl parse_line items (before @ after))
 \<and> (9 \<le> length (str_split line) \<longrightarrow>
      parse_line items line =
        AList.update (last (str_split line))
          (case strptime (str_join '' '' (take 3 (drop 5 (str_split line)))) of
             Inr t \<Rightarrow> mktime t | Inl e \<Rightarrow> 0) items
    \<and> map_of (parse_line items line) (last (str_split line)) =
        Some (case strptime (str_join '' '' (take 3 (drop 5 (str_split line)))) of
                Inr t \<Rightarrow> mktime t | Inl e \<Rightarrow> 0))
 \<and> (\<forall>t. strptime s = Inr t \<longrightarrow> tm_year t = 1900)"
proof (intro conjI impI allI)
  assume "length (str_split line) < 9"
  then show "parse_line items line = items" by (simp add: parse_line_def)
next
  assume "length (str_split line) < 9"
  then show "foldl parse_line items (before @ line # after) = foldl parse_line items (before @ after)"
    by (rule foldl_parse_line_short)
next
  assume 9: "9 \<le> length (str_split line)"
  then show u: "parse_line items line =
        AList.update (last (str_split line))
          (case strptime (str_join '' '' (take 3 (drop 5 (str_split line)))) of
             Inr t \<Rightarrow> mktime t | Inl e \<Rightarrow> 0) items"
    by (simp add: parse_line_def Let_def split: sum.splits)
  show "map_of (parse_line items line) (last (str_split line)) =
        Some (case strptime (str_join '' '' (take 3 (drop 5 (str_split line)))) of
                Inr t \<Rightarrow> mktime t | Inl e \<Rightarrow> 0)"
    by (simp only: u update_conv') simp
next
  fix t assume "strptime s = Inr t"
  then show "tm_year t = 1900" by (rule strptime_year)
qed

theorem listing_resolver_parse_line_witness:
  "length (str_split line_short) < 9
   \<and> parse_line [] line_short = []
   \<and> foldl parse_line [] ([] @ line_short # [line_ok]) = foldl parse_line [] ([] @ [line_ok])
   \<and> 9 \<le> length (str_split line_ok)
   \<and> parse_line [] line_ok = [(''a.txt'', - 2208598200)]
   \<and> map_of (parse_line [] line_year) ''old.txt'' = Some 0
   \<and> strptime ''Jan 5 12:30''
        = Inr \<lparr>tm_year = 1900, tm_mon = 1, tm_mday = 5, tm_hour = 12, tm_min = 30\<rparr>"
proof -
  have a: "length (str_split line_short) < 9" by (simp add: line_short_def str_split_def isspace_def)
  have b: "9 \<le> length (str_split line_ok)" by (simp add: line_ok_def str_split_def isspace_def)
  have c: "9 \<le> length (str_split line_year)" by (simp add: line_year_def str_split_def isspace_def)
  have d: "strptime ''Jan 5 12:30''
        = Inr \<lparr>tm_year = 1900, tm_mon = 1, tm_mday = 5, tm_hour = 12, tm_min = 30\<rparr>"
    by (simp add: eval_listing)
  have e: "parse_line [] line_ok = [(''a.txt'', - 2208598200)]"
    by (simp add: line_ok_def eval_listing)
  have f: "map_of (parse_line [] line_year) ''old.txt'' = Some 0"
    by (simp add: line_year_def eval_listing)
  from listing_resolver_parse_line[of line_short "[]" "[]" "[line_ok]" "''Jan 5 12:30''"] a
  have "parse_line [] line_short = []"
    "foldl parse_line [] ([] @ line_short # [line_ok]) = foldl parse_line [] ([] @ [line_ok])"
    by blast+
  with a b d e f show ?thesis by blast
qed

text \<open>
  The claim asks for the time stamp in the current year.  For a file listed as
  \<open>Jan 5 12:30\<close> the entry is 12:30 on 5 January 1900, which is not that time of day
  in 2026.
\<close>

theorem listing_resolver_year_counterexample:
  "map_of (parse_line [] ''-rw-r--r--   1 owner group     10 Jan  5 12:30 a.txt'') ''a.txt''
     = Some (mktime \<lparr>tm_year = 1900, tm_mon = 1, tm_mday = 5, tm_hour = 12, tm_min = 30\<rparr>)
   \<and> mktime \<lparr>tm_year = 1900, tm_mon = 1, tm_mday = 5, tm_hour = 12, tm_min = 30\<rparr> = - 2208598200
   \<and> mktime \<lparr>tm_year = 2026, tm_mon = 1, tm_mday = 5, tm_hour = 12, tm_min = 30\<rparr> = 1767616200"
  by (simp add: eval_listing)

section \<open>The probe, and the ascent of Pull\<close>

text \<open>
  Changing to the text that \<open>pwd\<close> reports leads back to the current directory.  So
  the probe \<open>is_directory\<close> answers whether the entry resolves to a directory and
  leaves the session exactly as it found it.
\<close>

lemma components_from_append:
  "CHR ''/'' \<notin> set s \<Longrightarrow> components_from (s @ t) w = components_from t (rev s @ w)"
  by (induction s arbitrary: w) auto

lemma components_from_name: "CHR ''/'' \<notin> set s \<Longrightarrow> components_from s w = [rev w @ s]"
  using components_from_append[of s "[]" w] by simp

lemma components_from_join:
  "p \<noteq> [] \<Longrightarrow> \<forall>c \<in> set p. CHR ''/'' \<notin> set c \<Longrightarrow>
     components_from (str_join ''/'' p) w = (rev w @ hd p) # tl p"
proof (induction "''/''" p arbitrary: w rule: str_join.induct)
  case 1
  then show ?case by simp
next
  case (2 x)
  then show ?case by (simp add: components_from_name)
next
  case (3 x y ys)
  from 3(3) have x: "CHR ''/'' \<notin> set x" and rest: "\<forall>c \<in> set (y # ys). CHR ''/'' \<notin> set c" by auto
  have "components_from (x @ CHR ''/'' # str_join ''/'' (y # ys)) w
        = components_from (CHR ''/'' # str_join ''/'' (y # ys)) (rev x @ w)"
    using components_from_append[OF x] by simp
  also have "\<dots> = (rev w @ x) # components_from (str_join ''/'' (y # ys)) []" by simp
  also have "\<dots> = (rev w @ x) # y # ys" using 3(1)[OF _ rest, of "[]"] by simp
  finally show ?case by simp
qed

lemma walk_components_plain:
  "\<forall>c \<in> set p. plain c \<Longrightarrow> walk_components cur p = cur @ p"
  by (induction p arbitrary: cur) (auto simp: plain_def)

lemma resolve_pwd:
  assumes "\<forall>c \<in> set (cur_dir f). plain c"
  shows "resolve cur (pwd f) = cur_dir f"
proof (cases "cur_dir f = []")
  case True
  then show ?thesis by (simp add: resolve_def pwd_def)
next
  case False
  from assms have "\<forall>c \<in> set (cur_dir f). CHR ''/'' \<notin> set c" by (simp add: plain_def)
  from components_from_join[OF False this, of "[]"]
  have "components_from (str_join ''/'' (cur_dir f)) [] = cur_dir f" using False by simp
  then show ?thesis using assms by (simp add: resolve_def pwd_def walk_components_plain)
qed

lemma is_directory_probe:
  assumes "\<forall>c \<in> set (cur_dir f). plain c" and "isdir (root f) (cur_dir f)"
  shows "is_directory f item = (isdir (root f) (resolve (cur_dir f) item), f)"
proof (cases "isdir (root f) (resolve (cur_dir f) item)")
  case False
  then show ?thesis by (simp add: is_directory_def cwd_def)
next
  case True
  let ?f1 = "f\<lparr>cur_dir := resolve (cur_dir f) item\<rparr>"
  have 1: "cwd f item = Inr ?f1" using True by (simp add: cwd_def)
  have "resolve (cur_dir ?f1) (pwd f) = cur_dir f" using assms(1) by (rule resolve_pwd)
  then have 2: "cwd ?f1 (pwd f) = Inr f" using assms(2) by (simp add: cwd_def)
  show ?thesis using True by (simp add: is_directory_def 1 2)
qed

text \<open>
  \<open>download_directory\<close> leaves the session where it was when the directory cannot be
  entered, and when the directory, entered by its plain name, lists nothing.
\<close>

lemma resolve_name: "plain name \<Longrightarrow> resolve cur name = cur @ [name]"
  by (cases name) (auto simp: resolve_def plain_def components_from_name walk_components_plain)

lemma resolve_up: "resolve cur ''..'' = butlast cur"
  by (simp add: resolve_def)

lemma download_directory_inaccessible:
  "makedirs now staging local_dir = Inr st1 \<Longrightarrow> cwd f remote = Inl e \<Longrightarrow>
     download_directory now merged (f, staging, pbar) remote local_dir merged_dir total_files
       = (Inr (), f, Some st1, pbar)"
  by simp

lemma download_directory_empty:
  assumes "makedirs now staging local_dir = Inr st1"
    and "plain name" and "isdir (root f) (cur_dir f)" and "cwd f name = Inr f1"
    and "list_directory_with_details f1 = []"
  shows "\<exists>pbar'. download_directory now merged (f, staging, pbar) name local_dir merged_dir total_files
       = (Inr (), f, Some st1, pbar')"
proof -
  from assms(2,4) have f1: "f1 = f\<lparr>cur_dir := cur_dir f @ [name]\<rparr>"
    by (auto simp: cwd_def resolve_name Let_def split: if_splits)
  have up: "cwd f1 ''..'' = Inr f" using assms(3) by (simp add: f1 cwd_def resolve_up)
  show ?thesis
    using assms(1,4,5) up by (cases "pbar = None \<and> total_files = None") (auto simp: Let_def)
qed

section \<open>Claims about Pull\<close>

lemma sum_not_directory_raises: "xs \<noteq> [] \<Longrightarrow> sum_not_directory xs = Inl TypeError"
  by (cases xs) (simp_all add: is_directory_one_argument_def)

lemma download_items_raises:
  "items \<noteq> [] \<Longrightarrow>
     download_items now merged (f, staging, pbar) local_dir merged_dir total_files items
       = (Inl TypeError, f, staging, pbar)"
  by (cases items) (auto simp: is_directory_one_argument_def)

text \<open>
  Claim C2 fails on the code.  Whenever the remote directory can be entered and its
  listing has an entry, \<open>download_directory\<close> raises \<open>TypeError\<close> at that entry: the
  comparison with the canonical copy is never reached, nothing is fetched, and the
  staging tree holds the directory just made and no file.
\<close>

theorem download_directory_raises_on_first_entry:
  "cwd f remote = Inr f1 \<and> list_directory_with_details f1 \<noteq> []
     \<and> makedirs now staging local_dir = Inr st1 \<longrightarrow>
   download_directory now merged (f, staging, pbar) remote local_dir merged_dir total_files
     = (Inl TypeError, f1, Some st1, pbar)"
proof (intro impI, elim conjE)
  assume a: "cwd f remote = Inr f1" and b: "list_directory_with_details f1 \<noteq> []"
    and c: "makedirs now staging local_dir = Inr st1"
  from b have s: "sum_not_directory (map snd (list_directory_with_details f1)) = Inl TypeError"
    by (simp add: sum_not_directory_raises)
  show "download_directory now merged (f, staging, pbar) remote local_dir merged_dir total_files
     = (Inl TypeError, f1, Some st1, pbar)"
    by (simp add: a c s Let_def download_items_raises[OF b])
qed

text \<open>
  The remote directory holds \<open>b.txt\<close> and the canonical tree is empty: the file
  differs, yet it is not staged.
\<close>

theorem download_directory_raises_on_first_entry_witness:
  "cwd (vita [(''b.txt'', File ''B'' 1000)]) remote_dir
      = Inr ((vita [(''b.txt'', File ''B'' 1000)])\<lparr>cur_dir := savedata\<rparr>)
   \<and> list_directory_with_details ((vita [(''b.txt'', File ''B'' 1000)])\<lparr>cur_dir := savedata\<rparr>)
      = [(''b.txt'', - 2208598200)]
   \<and> makedirs 9 None [] = Inr (Dir 9 [])
   \<and> download_directory 9 None (vita [(''b.txt'', File ''B'' 1000)], None, None) remote_dir [] [] None
      = (Inl TypeError, (vita [(''b.txt'', File ''B'' 1000)])\<lparr>cur_dir := savedata\<rparr>,
         Some (Dir 9 []), None)"
proof -
  have a: "cwd (vita [(''b.txt'', File ''B'' 1000)]) remote_dir
      = Inr ((vita [(''b.txt'', File ''B'' 1000)])\<lparr>cur_dir := savedata\<rparr>)"
    by (simp add: eval_session savedata_def)
  have b: "list_directory_with_details ((vita [(''b.txt'', File ''B'' 1000)])\<lparr>cur_dir := savedata\<rparr>)
      = [(''b.txt'', - 2208598200)]"
    by (simp add: eval_session savedata_def eval_listing)
  have c: "makedirs 9 None [] = Inr (Dir 9 [])" by (simp add: makedirs_def)
  from b have b': "list_directory_with_details ((vita [(''b.txt'', File ''B'' 1000)])\<lparr>cur_dir := savedata\<rparr>) \<noteq> []"
    by simp
  from download_directory_raises_on_first_entry[of "vita [(''b.txt'', File ''B'' 1000)]" remote_dir
      "(vita [(''b.txt'', File ''B'' 1000)])\<lparr>cur_dir := savedata\<rparr>" 9 None "[]" "Dir 9 []"
      None None "[]" None] a b' c
  have "download_directory 9 None (vita [(''b.txt'', File ''B'' 1000)], None, None) remote_dir [] [] None
      = (Inl TypeError, (vita [(''b.txt'', File ''B'' 1000)])\<lparr>cur_dir := savedata\<rparr>,
         Some (Dir 9 []), None)"
    by blast
  with a b c show ?thesis by blast
qed

text \<open>
  Claim C4 fails on the code.  The probe itself answers as the claim says: directory
  for \<open>a\<close>, file for \<open>c.txt\<close>, the current directory unchanged both times.  Pull
  never asks it: \<open>download_directory\<close> raises \<open>TypeError\<close> at the first entry and
  does not descend into \<open>a\<close>.
\<close>

theorem pull_never_recurses_into_subdirectory:
  "is_directory ((vita [(''a'', Dir 0 [(''b.txt'', File ''B'' 1000)]), (''c.txt'', File ''C'' 1000)])
                   \<lparr>cur_dir := savedata\<rparr>) ''a''
     = (True, (vita [(''a'', Dir 0 [(''b.txt'', File ''B'' 1000)]), (''c.txt'', File ''C'' 1000)])
                   \<lparr>cur_dir := savedata\<rparr>)
   \<and> is_directory ((vita [(''a'', Dir 0 [(''b.txt'', File ''B'' 1000)]), (''c.txt'', File ''C'' 1000)])
                   \<lparr>cur_dir := savedata\<rparr>) ''c.txt''
     = (False, (vita [(''a'', Dir 0 [(''b.txt'', File ''B'' 1000)]), (''c.txt'', File ''C'' 1000)])
                   \<lparr>cur_dir := savedata\<rparr>)
   \<and> download_directory 9 None
        (vita [(''a'', Dir 0 [(''b.txt'', File ''B'' 1000)]), (''c.txt'', File ''C'' 1000)], None, None)
        remote_dir [] [] None
     = (Inl TypeError,
        (vita [(''a'', Dir 0 [(''b.txt'', File ''B'' 1000)]), (''c.txt'', File ''C'' 1000)])
                   \<lparr>cur_dir := savedata\<rparr>,
        Some (Dir 9 []), None)"
  by (simp add: eval_pull)

text \<open>
  Claim C8 fails on the code.  The size pass \<open>count_files\<close> finds the one file of the
  remote tree; \<open>download_directory\<close>, which does not call it, ends with no progress
  counter at all.
\<close>

theorem pull_total_is_not_count_files:
  "count_files 3 (vita [(''a'', Dir 0 [(''b.txt'', File ''B'' 1000)])]) remote_dir
     = Some (Inr 1, (vita [(''a'', Dir 0 [(''b.txt'', File ''B'' 1000)])])\<lparr>cur_dir := [''ux0:'', ''user'', ''00'']\<rparr>)
   \<and> snd (snd (snd (download_directory 9 None
        (vita [(''a'', Dir 0 [(''b.txt'', File ''B'' 1000)])], None, None) remote_dir [] [] None)))
     = None"
  by (simp add: eval_pull numeral_3_eq_3)

section \<open>Claims about Push\<close>

text \<open>
  Claim C6 fails on the code.  For every local file whose name is in the remote
  snapshot, whatever the two time stamps, the loop of \<open>upload_directory\<close> raises
  \<open>AttributeError\<close> when it reads the snapshot's entry: the file is neither skipped
  nor uploaded.
\<close>

theorem upload_items_raises_on_known_file:
  "\<not> isdir_node local_node \<and> map_of remote_files item \<noteq> None \<longrightarrow>
     upload_items (f, pbar) remote remote_files ((item, local_node) # rest)
       = (Inl AttributeError, f, pbar)"
  by (auto simp: get_mtime_of_value_def)

text \<open>
  The round trip of the claim: the file \<open>f\<close> is on the endpoint and in the canonical
  tree with the same time stamp, so it should be skipped.
\<close>

theorem upload_directory_raises_on_known_file:
  "\<not> isdir_node (File ''x'' (- 2208598200))
   \<and> list_directory_with_details ((vita [(''f'', File ''x'' (- 2208598200))])\<lparr>cur_dir := savedata\<rparr>)
     = [(''f'', - 2208598200)]
   \<and> map_of [(''f'', - 2208598200 :: int)] ''f'' \<noteq> None
   \<and> upload_items ((vita [(''f'', File ''x'' (- 2208598200))])\<lparr>cur_dir := savedata\<rparr>,
          Some (tqdm_new 1)) remote_dir [(''f'', - 2208598200)] [(''f'', File ''x'' (- 2208598200))]
     = (Inl AttributeError, (vita [(''f'', File ''x'' (- 2208598200))])\<lparr>cur_dir := savedata\<rparr>,
        Some (tqdm_new 1))
   \<and> upload_directory (vita [(''f'', File ''x'' (- 2208598200))], None)
        (Some (Dir 0 [(''f'', File ''x'' (- 2208598200))])) remote_dir
     = (Inl AttributeError, (vita [(''f'', File ''x'' (- 2208598200))])\<lparr>cur_dir := savedata\<rparr>,
        Some \<lparr>tq_total = 1, tq_n = 0, tq_closed = False\<rparr>)"
proof -
  let ?f = "(vita [(''f'', File ''x'' (- 2208598200))])\<lparr>cur_dir := savedata\<rparr>"
  have a: "\<not> isdir_node (File ''x'' (- 2208598200))" by simp
  have b: "map_of [(''f'', - 2208598200 :: int)] ''f'' \<noteq> None" by simp
  have c: "list_directory_with_details ?f = [(''f'', - 2208598200)]"
    by (simp add: eval_pull)
  from upload_items_raises_on_known_file[of "File ''x'' (- 2208598200)" "[(''f'', - 2208598200)]"
      "''f''" ?f "Some (tqdm_new 1)" remote_dir "[]"] a b
  have d: "upload_items (?f, Some (tqdm_new 1)) remote_dir [(''f'', - 2208598200)]
             [(''f'', File ''x'' (- 2208598200))]
           = (Inl AttributeError, ?f, Some (tqdm_new 1))"
    by blast
  have e: "enter_remote (vita [(''f'', File ''x'' (- 2208598200))]) remote_dir = Inr ?f"
    by (simp add: eval_pull)
  have "upload_directory (vita [(''f'', File ''x'' (- 2208598200))], None)
        (Some (Dir 0 [(''f'', File ''x'' (- 2208598200))])) remote_dir
     = (Inl AttributeError, ?f, Some \<lparr>tq_total = 1, tq_n = 0, tq_closed = False\<rparr>)"
    using d by (simp add: e c listdir_def tqdm_new_def)
  with a b c d show ?thesis by blast
qed

text \<open>
  Claim C7 fails on the code.  \<open>upload_directory\<close> never goes back up.  After the
  empty subdirectory \<open>d\<close> the session is still in \<open>savedata/d\<close>: the file \<open>f\<close> of the
  top directory is stored there, and the walk ends there.
\<close>

theorem upload_directory_leaves_cwd_in_subdirectory:
  "upload_directory (vita [], None) (Some (Dir 0 [(''d'', Dir 0 []), (''f'', File ''x'' 42)])) remote_dir
     = (Inr (),
        \<lparr>root = Dir 0 [(''ux0:'', Dir 0 [(''user'', Dir 0 [(''00'', Dir 0
                  [(''savedata'', Dir 777 [(''d'', Dir 777 [(''f'', File ''x'' 42)])])])])])],
         cur_dir = savedata @ [''d''], clock = 777, lister = ls\<rparr>,
        Some \<lparr>tq_total = 2, tq_n = 2, tq_closed = False\<rparr>)"
  by (simp add: eval_pull)

section \<open>Claims about the run\<close>



















end
